theory Spec2Isabelle
  imports Complex_Main "HOL-Library.Log_Nat"
begin

section \<open>JavaScript strings\<close>

text \<open>
  A JavaScript string is modelled as the list of its code points, each a natural number.
  The source uses characters outside Latin-1 (the Braille spinner frames, the two indicator
  glyphs), so the 8-bit \<open>char\<close> of HOL is too small; every regular expression of the
  source is written without the \<open>u\<close> flag and names ASCII characters and \<open>.\<close> only, so
  that it reads a code point the way it reads a code unit. A surrogate value in the list
  stands for a lone surrogate. \<open>lit\<close> turns an ASCII literal into such a string.
\<close>

type_synonym jsstring = "nat list"

definition lit :: "string \<Rightarrow> jsstring" where
  "lit s = map of_char s"

definition is_digit :: "nat \<Rightarrow> bool" where
  "is_digit c = (48 \<le> c \<and> c \<le> 57)"

text \<open>\<open>\w\<close>: the ASCII letters, the digits and the underscore.\<close>

definition is_word :: "nat \<Rightarrow> bool" where
  "is_word c = ((65 \<le> c \<and> c \<le> 90) \<or> (97 \<le> c \<and> c \<le> 122) \<or> is_digit c \<or> c = 95)"

text \<open>LineTerminator: LF, CR, LS, PS. The regular expression \<open>.\<close> is every other character.\<close>

definition is_line_terminator :: "nat \<Rightarrow> bool" where
  "is_line_terminator c = (c = 10 \<or> c = 13 \<or> c = 8232 \<or> c = 8233)"

definition is_dot :: "nat \<Rightarrow> bool" where
  "is_dot c = (\<not> is_line_terminator c)"

text \<open>WhiteSpace: TAB, VT, FF, ZWNBSP and the space separators (category Zs).\<close>

definition is_white_space :: "nat \<Rightarrow> bool" where
  "is_white_space c = (c = 9 \<or> c = 11 \<or> c = 12 \<or> c = 32 \<or> c = 160 \<or> c = 5760
     \<or> (8192 \<le> c \<and> c \<le> 8202) \<or> c = 8239 \<or> c = 8287 \<or> c = 12288 \<or> c = 65279)"

definition is_str_white_space :: "nat \<Rightarrow> bool" where
  "is_str_white_space c = (is_white_space c \<or> is_line_terminator c)"

definition starts_with :: "jsstring \<Rightarrow> jsstring \<Rightarrow> bool" where
  "starts_with s p = (take (length p) s = p)"

section \<open>JavaScript numbers\<close>

text \<open>
  A Number is an IEEE 754 double: a finite value is kept as the rational it denotes, and
  \<open>to_double\<close> is the rounding of a mathematical value to the nearest double, ties to the
  even significand, that every arithmetic operation and every conversion applies.
\<close>

datatype jsnum = NaN | PosInf | NegInf | NegZero | Num rat

text \<open>\<open>ilog2 a\<close> is the exponent \<open>e\<close> with \<open>2 ^ e \<le> a < 2 ^ (e + 1)\<close>, for \<open>a > 0\<close>.\<close>

definition ilog2 :: "rat \<Rightarrow> int" where
  "ilog2 a = (let k = bitlen (fst (quotient_of a)) - bitlen (snd (quotient_of a))
              in if 2 powi k \<le> a then k else k - 1)"

definition round_even :: "rat \<Rightarrow> int" where
  "round_even m = (let f = \<lfloor>m\<rfloor>; r = m - of_int f
     in if r < 1 / 2 then f else if 1 / 2 < r then f + 1 else if even f then f else f + 1)"

definition to_double :: "rat \<Rightarrow> jsnum" where
  "to_double x = (if x = 0 then Num 0 else
     let a = \<bar>x\<bar>;
         u = max (ilog2 a) (- 1022) - 52;
         r = of_int (round_even (a / 2 powi u)) * 2 powi u
     in if 2 ^ 1024 \<le> r then (if 0 < x then PosInf else NegInf)
        else if r = 0 then (if 0 < x then Num 0 else NegZero)
        else Num (if 0 < x then r else - r))"

definition js_neg :: "jsnum \<Rightarrow> jsnum" where
  "js_neg n = (case n of NaN \<Rightarrow> NaN | PosInf \<Rightarrow> NegInf | NegInf \<Rightarrow> PosInf
     | NegZero \<Rightarrow> Num 0 | Num q \<Rightarrow> (if q = 0 then NegZero else Num (- q)))"

text \<open>ToBoolean of a Number: \<open>+0\<close>, \<open>-0\<close> and \<open>NaN\<close> are falsy.\<close>

definition truthy_num :: "jsnum \<Rightarrow> bool" where
  "truthy_num n = (n \<noteq> NaN \<and> n \<noteq> NegZero \<and> n \<noteq> Num 0)"

subsection \<open>StringToNumber: what unary \<open>+\<close> does to a string\<close>

definition digit_val :: "nat \<Rightarrow> int" where
  "digit_val c = (if is_digit c then int c - 48
                  else if 97 \<le> c \<and> c \<le> 102 then int c - 87
                  else int c - 55)"

definition radix_val :: "int \<Rightarrow> jsstring \<Rightarrow> int" where
  "radix_val b ds = foldl (\<lambda>a d. b * a + digit_val d) 0 ds"

definition is_hex_digit :: "nat \<Rightarrow> bool" where
  "is_hex_digit c = (is_digit c \<or> (97 \<le> c \<and> c \<le> 102) \<or> (65 \<le> c \<and> c \<le> 70))"

definition is_octal_digit :: "nat \<Rightarrow> bool" where
  "is_octal_digit c = (48 \<le> c \<and> c \<le> 55)"

definition is_binary_digit :: "nat \<Rightarrow> bool" where
  "is_binary_digit c = (c = 48 \<or> c = 49)"

text \<open>NonDecimalIntegerLiteral: \<open>0x\<close>, \<open>0o\<close>, \<open>0b\<close> (either case) and at least one digit.\<close>

definition non_decimal :: "jsstring \<Rightarrow> int option" where
  "non_decimal s = (case s of
       z # x # ds \<Rightarrow>
         if z = 48 \<and> ds \<noteq> [] then
           (if (x = 120 \<or> x = 88) \<and> list_all is_hex_digit ds then Some (radix_val 16 ds)
            else if (x = 111 \<or> x = 79) \<and> list_all is_octal_digit ds then Some (radix_val 8 ds)
            else if (x = 98 \<or> x = 66) \<and> list_all is_binary_digit ds then Some (radix_val 2 ds)
            else None)
         else None
     | _ \<Rightarrow> None)"

text \<open>ExponentPart, optional: nothing, or \<open>e\<close>/\<open>E\<close>, an optional sign and digits to the end.\<close>

definition exponent_part :: "jsstring \<Rightarrow> int option" where
  "exponent_part s = (case s of
       [] \<Rightarrow> Some 0
     | e # ds \<Rightarrow>
         if e \<noteq> 101 \<and> e \<noteq> 69 then None
         else (case ds of
                 [] \<Rightarrow> None
               | g # ds' \<Rightarrow>
                   if g = 43 \<or> g = 45 then
                     (if ds' \<noteq> [] \<and> list_all is_digit ds'
                      then Some ((if g = 45 then - 1 else 1) * radix_val 10 ds') else None)
                   else if list_all is_digit ds then Some (radix_val 10 ds) else None))"

text \<open>
  StrUnsignedDecimalLiteral: \<open>Infinity\<close>, or digits with an optional fraction and an
  optional exponent, at least one digit in all. The value is rounded once, from the exact
  decimal value (V8 rounds correctly whatever the number of digits).
\<close>

definition unsigned_decimal :: "jsstring \<Rightarrow> jsnum" where
  "unsigned_decimal s = (if s = lit ''Infinity'' then PosInf else
     let ip = takeWhile is_digit s;
         r1 = dropWhile is_digit s;
         dot = (case r1 of [] \<Rightarrow> False | c # _ \<Rightarrow> c = 46);
         fp = (if dot then takeWhile is_digit (tl r1) else []);
         r2 = (if dot then dropWhile is_digit (tl r1) else r1)
     in if ip = [] \<and> fp = [] then NaN
        else (case exponent_part r2 of
                None \<Rightarrow> NaN
              | Some e \<Rightarrow>
                  to_double (of_int (radix_val 10 (ip @ fp)) * 10 powi (e - int (length fp)))))"

definition trim :: "jsstring \<Rightarrow> jsstring" where
  "trim s = rev (dropWhile is_str_white_space (rev (dropWhile is_str_white_space s)))"

definition toNumber :: "jsstring \<Rightarrow> jsnum" where
  "toNumber s = (let t = trim s in
     case t of
       [] \<Rightarrow> Num 0
     | c # cs \<Rightarrow>
         (case non_decimal t of
            Some n \<Rightarrow> to_double (of_int n)
          | None \<Rightarrow>
              if c = 43 then unsigned_decimal cs
              else if c = 45 then js_neg (unsigned_decimal cs)
              else unsigned_decimal t))"

section \<open>The cursor locator\<close>

text \<open>
  \<open>JSON.stringify\<close> of what \<open>process.stdin.read()\<close> returns: a string (the encoding is
  set to utf8) or \<open>null\<close>. A string is quoted; the quote and the backslash are escaped, a
  control character has its short escape or \<open>\u00xx\<close>, a lone surrogate \<open>\udxxx\<close>.
\<close>

definition hex_digit :: "nat \<Rightarrow> nat" where
  "hex_digit d = (if d < 10 then 48 + d else 87 + d)"

definition unicode_escape :: "nat \<Rightarrow> jsstring" where
  "unicode_escape c = [92, 117, hex_digit (c div 4096 mod 16), hex_digit (c div 256 mod 16),
                       hex_digit (c div 16 mod 16), hex_digit (c mod 16)]"

definition quote_char :: "nat \<Rightarrow> jsstring" where
  "quote_char c = (if c = 8 then [92, 98]
     else if c = 9 then [92, 116]
     else if c = 10 then [92, 110]
     else if c = 12 then [92, 102]
     else if c = 13 then [92, 114]
     else if c = 34 then [92, 34]
     else if c = 92 then [92, 92]
     else if c < 32 \<or> (55296 \<le> c \<and> c \<le> 57343) then unicode_escape c
     else [c])"

definition JSON_stringify :: "jsstring option \<Rightarrow> jsstring" where
  "JSON_stringify buf = (case buf of
       None \<Rightarrow> lit ''null''
     | Some s \<Rightarrow> [34] @ concat (map quote_char s) @ [34])"

text \<open>
  \<open>/\[(.*)/g.exec(str)?.[0]\<close>: the match starts at the first \<open>[\<close> and runs to the end of
  the line; there is none when \<open>str\<close> has no \<open>[\<close>.
\<close>

definition exec_bracket :: "jsstring \<Rightarrow> jsstring option" where
  "exec_bracket str = (let r = dropWhile (\<lambda>c. c \<noteq> 91) str
     in if r = [] then None else Some (takeWhile is_dot r))"

text \<open>\<open>.replace(/\[|R"/g, '')\<close>: every \<open>[\<close> and every \<open>R"\<close> is removed, left to right.\<close>

fun strip_brackets :: "jsstring \<Rightarrow> jsstring" where
  "strip_brackets [] = []"
| "strip_brackets [c] = (if c = 91 then [] else [c])"
| "strip_brackets (c # d # cs) =
     (if c = 91 then strip_brackets (d # cs)
      else if c = 82 \<and> d = 34 then strip_brackets cs
      else c # strip_brackets (d # cs))"

text \<open>\<open>.split(sep)\<close> at a one-character separator: always at least one piece.\<close>

fun js_split :: "nat \<Rightarrow> jsstring \<Rightarrow> jsstring list" where
  "js_split sep [] = [[]]"
| "js_split sep (c # cs) =
     (if c = sep then [] # js_split sep cs
      else (case js_split sep cs of
              [] \<Rightarrow> [[c]]
            | x # xs \<Rightarrow> (c # x) # xs))"

text \<open>\<open>xy?.[k] || '0'\<close>: the piece, or \<open>'0'\<close> when \<open>xy\<close> or the piece is undefined or empty.\<close>

definition piece_or_zero :: "jsstring list option \<Rightarrow> nat \<Rightarrow> jsstring" where
  "piece_or_zero xy k = (case xy of
       None \<Rightarrow> lit ''0''
     | Some ps \<Rightarrow> if k < length ps \<and> ps ! k \<noteq> [] then ps ! k else lit ''0'')"

record cursor_pos =
  rows :: jsnum
  cols :: jsnum

definition cursor_position :: "jsstring option \<Rightarrow> cursor_pos" where
  "cursor_position buf = (let
       str = JSON_stringify buf;
       xy = map_option (\<lambda>m. js_split 59 (strip_brackets m)) (exec_bracket str)
     in \<lparr>rows = toNumber (piece_or_zero xy 0), cols = toNumber (piece_or_zero xy 1)\<rparr>)"

text \<open>The reply \<open>ESC [ r ; c R\<close> of the terminal.\<close>

definition cursor_reply :: "jsstring \<Rightarrow> jsstring \<Rightarrow> jsstring" where
  "cursor_reply r c = [27, 91] @ r @ [59] @ c @ [82]"

section \<open>The spinner session\<close>

text \<open>
  What the session does to the terminal is the sequence of its calls on \<open>process.stdout\<close>
  and \<open>process.stdin\<close>, in program order. A call that raises an exception is in the
  sequence too, as the last call of the function that made it.
\<close>

datatype effect =
    StdoutWrite jsstring
  | CursorTo nat "jsnum option"
  | ClearLine nat
  | SetEncoding jsstring
  | SetRawMode bool
  | Resume

text \<open>
  The four styles of the \<open>chalk\<close> package that the source calls. The package is not part
  of the repository (what a style adds depends on the colour support of the terminal), so
  the styles are parameters of the model.
\<close>

record chalk =
  cyan :: "jsstring \<Rightarrow> jsstring"
  yellow :: "jsstring \<Rightarrow> jsstring"
  green :: "jsstring \<Rightarrow> jsstring"
  red :: "jsstring \<Rightarrow> jsstring"

definition frames :: "jsstring list" where
  "frames = [[10251], [10265], [10297], [10296], [10300], [10292], [10278], [10279], [10247], [10255]]"

text \<open>
  An interval timer created by \<open>setInterval\<close> owns the variables its callback closes over:
  the counter \<open>i\<close> and the \<open>startMessage\<close> of the call of \<open>start\<close> that led to it.
\<close>

type_synonym interval = "jsnum \<times> jsstring"

text \<open>
  \<open>rowNumber\<close> and \<open>id'\<close> (the source's \<open>id\<close>) are the two variables of \<open>progress\<close>;
  \<open>message\<close> and \<open>autoStopTimer\<close> are its parameters. The rest is the part of the event
  loop the session uses: the calls made so far, the pending one-shot \<open>readable\<close> listeners
  (each with the \<open>startMessage\<close> it closes over), the active interval timers by handle, the
  pending \<open>await sleep(timer)\<close> of calls of \<open>start\<close> (each resumes with \<open>stop()\<close>), and the
  next fresh timer handle. Durations are not modelled: a timer that is armed may fire, as an
  event, at any later moment.
\<close>

record session =
  message :: jsstring
  autoStopTimer :: jsnum
  rowNumber :: "jsnum option"
  id' :: "nat option"
  out :: "effect list"
  listeners :: "jsstring list"
  intervals :: "(nat \<times> interval) list"
  sleeps :: "jsnum list"
  next_handle :: nat

definition emit :: "effect list \<Rightarrow> session \<Rightarrow> session" where
  "emit es s = s\<lparr>out := out s @ es\<rparr>"

definition clearInterval :: "nat \<Rightarrow> session \<Rightarrow> session" where
  "clearInterval h s = s\<lparr>intervals := filter (\<lambda>kv. fst kv \<noteq> h) (intervals s)\<rparr>"

text \<open>
  A function of the session returns, or raises an exception; either way it leaves a
  session behind. \<open>and_then\<close> is the sequence of two statements: the second does not run
  when the first raises.
\<close>

datatype outcome = Returned session | Thrown session

definition state_of :: "outcome \<Rightarrow> session" where
  "state_of r = (case r of Returned s \<Rightarrow> s | Thrown s \<Rightarrow> s)"

definition and_then :: "outcome \<Rightarrow> (session \<Rightarrow> outcome) \<Rightarrow> outcome" where
  "and_then r f = (case r of Returned s \<Rightarrow> f s | Thrown s \<Rightarrow> Thrown s)"

text \<open>
  \<open>process.stdout.cursorTo(x, y)\<close> is Node's \<open>readline.cursorTo\<close>: it raises
  \<open>ERR_INVALID_ARG_VALUE\<close> when a coordinate is \<open>NaN\<close>, before it writes anything, and
  moves the cursor otherwise (an undefined \<open>y\<close> moves it within the line). It is the only
  call of the session that can raise; \<open>x\<close> is always 0 in the source.
\<close>

definition cursorTo :: "nat \<Rightarrow> jsnum option \<Rightarrow> session \<Rightarrow> outcome" where
  "cursorTo x y s = (if y = Some NaN then Thrown (emit [CursorTo x y] s)
                     else Returned (emit [CursorTo x y] s))"

definition stop :: "session \<Rightarrow> outcome" where
  "stop s = (case id' s of
       None \<Rightarrow> Returned s
     | Some h \<Rightarrow> and_then (cursorTo 0 (rowNumber s) (clearInterval h s))
                  (\<lambda>s1. Returned (emit [ClearLine 0] s1)))"

text \<open>
  \<open>start\<close> up to its \<open>await\<close>: the listener is registered and the query written; with a
  truthy \<open>timer\<close> the call then sleeps, and \<open>expire\<close> below is its resumption. When its
  \<open>stop()\<close> raises, the rest of \<open>start\<close> does not run (the promise it returns is
  rejected).
\<close>

definition start :: "session \<Rightarrow> jsstring \<Rightarrow> jsnum \<Rightarrow> outcome" where
  "start s startMessage timer = and_then (stop s) (\<lambda>s1. let
       s2 = emit [StdoutWrite [10], SetEncoding (lit ''utf8''), SetRawMode True] s1;
       s3 = s2\<lparr>listeners := listeners s2 @ [startMessage]\<rparr>;
       s4 = emit [Resume, StdoutWrite (27 # lit ''[6n'')] s3
     in Returned (if truthy_num timer then s4\<lparr>sleeps := sleeps s4 @ [timer]\<rparr> else s4))"

text \<open>\<open>i++\<close> and \<open>frames[i % frames.length]\<close> on a Number.\<close>

definition js_incr :: "jsnum \<Rightarrow> jsnum" where
  "js_incr n = (case n of Num q \<Rightarrow> to_double (q + 1) | NegZero \<Rightarrow> Num 1 | _ \<Rightarrow> n)"

definition frame_at :: "jsnum \<Rightarrow> jsstring" where
  "frame_at n = (case n of
       Num q \<Rightarrow> if 0 \<le> q \<and> of_int \<lfloor>q\<rfloor> = q then frames ! (nat \<lfloor>q\<rfloor> mod length frames)
                else lit ''undefined''
     | NegZero \<Rightarrow> frames ! 0
     | _ \<Rightarrow> lit ''undefined'')"

text \<open>The callback of \<open>process.stdin.once('readable', ...)\<close>, given what \<open>read()\<close> returns.\<close>

definition on_readable :: "jsstring \<Rightarrow> jsstring option \<Rightarrow> session \<Rightarrow> session" where
  "on_readable startMessage buf s = (let
       pos = cursor_position buf;
       s1 = emit [SetRawMode False] s;
       s2 = s1\<lparr>rowNumber := Some (rows pos)\<rparr>;
       h = next_handle s2
     in s2\<lparr>id' := Some h, intervals := intervals s2 @ [(h, (Num 0, startMessage))],
            next_handle := Suc h\<rparr>)"

text \<open>
  One \<open>readable\<close> event runs every pending listener, in the order of registration, and
  unregisters it. The first \<open>read()\<close> takes the whole buffer; the later ones return \<open>null\<close>.
\<close>

fun run_listeners :: "jsstring list \<Rightarrow> jsstring option \<Rightarrow> session \<Rightarrow> session" where
  "run_listeners [] buf s = s"
| "run_listeners (m # ms) buf s = run_listeners ms None (on_readable m buf s)"

definition readable :: "jsstring option \<Rightarrow> session \<Rightarrow> session" where
  "readable buf s = run_listeners (listeners s) buf (s\<lparr>listeners := []\<rparr>)"

text \<open>
  One run of the callback of \<open>setInterval\<close>, for the active timer \<open>h\<close>; \<open>None\<close> when
  \<open>h\<close> is not active. When \<open>cursorTo\<close> raises, the line is not cleared, the counter does
  not advance and nothing is written.
\<close>

definition tick :: "chalk \<Rightarrow> nat \<Rightarrow> session \<Rightarrow> outcome option" where
  "tick ch h s = (case map_of (intervals s) h of
       None \<Rightarrow> None
     | Some iv \<Rightarrow> Some (and_then (cursorTo 0 (rowNumber s) s) (\<lambda>s0. let
           s1 = emit [ClearLine 0] s0;
           spinner = cyan ch (frame_at (fst iv));
           s2 = s1\<lparr>intervals := map (\<lambda>kv. if fst kv = h then (h, (js_incr (fst iv), snd iv)) else kv)
                                    (intervals s1)\<rparr>;
           loadingMessage = yellow ch (snd iv)
         in Returned (emit [StdoutWrite (spinner @ [32] @ loadingMessage)] s2))))"

text \<open>The \<open>k\<close>-th pending sleep ends: the call of \<open>start\<close> resumes with \<open>stop()\<close>.\<close>

definition expire :: "nat \<Rightarrow> session \<Rightarrow> outcome option" where
  "expire k s = (if k < length (sleeps s)
     then Some (stop (s\<lparr>sleeps := take k (sleeps s) @ drop (Suc k) (sleeps s)\<rparr>))
     else None)"

definition success :: "chalk \<Rightarrow> jsstring \<Rightarrow> session \<Rightarrow> outcome" where
  "success ch endMessage s = and_then (stop s) (\<lambda>s1. let
       successMessage = green ch ([9989, 32] @ endMessage)
     in Returned (emit [StdoutWrite (successMessage @ [10])] s1))"

definition error :: "chalk \<Rightarrow> jsstring \<Rightarrow> session \<Rightarrow> outcome" where
  "error ch endMessage s = and_then (stop s) (\<lambda>s1. let
       errorMessage = red ch ([9940, 32] @ endMessage)
     in Returned (emit [StdoutWrite (errorMessage @ [10])] s1))"

definition log' :: "jsstring \<Rightarrow> session \<Rightarrow> outcome" where
  "log' logMessage s = and_then (stop s) (\<lambda>s1. Returned (emit [StdoutWrite logMessage] s1))"

text \<open>
  \<open>progress(message, autoStopTimer = 0)\<close>: the two variables unset, then \<open>start()\<close>, which
  returns there, no timer being set yet.
\<close>

definition blank :: "jsstring \<Rightarrow> jsnum \<Rightarrow> session" where
  "blank msg a = \<lparr>message = msg, autoStopTimer = a, rowNumber = None, id' = None, out = [],
     listeners = [], intervals = [], sleeps = [], next_handle = 0\<rparr>"

definition progress :: "jsstring \<Rightarrow> jsnum option \<Rightarrow> session" where
  "progress msg t = (let a = (case t of None \<Rightarrow> Num 0 | Some n \<Rightarrow> n)
     in state_of (start (blank msg a) msg a))"

subsection \<open>Events\<close>

text \<open>
  The calls of the five methods of the session (an omitted argument of \<open>start\<close> takes the
  parameter of \<open>progress\<close>), and the three things the event loop does to it. \<open>step\<close> is
  \<open>None\<close> for an event that cannot happen: a tick of a timer that is not active, the end
  of a sleep that is not pending.

  An exception raised by a method goes to its caller; one raised by the callback of a timer
  or by the resumed \<open>start\<close> goes to the process, which it ends unless the program handles
  it. Whether events follow is thus not the session's to decide: \<open>run\<close> lets them follow,
  from the session as the exception left it, so that what holds of every run holds whether
  the program goes on or not.
\<close>

datatype event =
    Start "jsstring option" "jsnum option"
  | Stop
  | Success jsstring
  | Error jsstring
  | Log jsstring
  | Readable "jsstring option"
  | Tick nat
  | Expire nat

fun step :: "chalk \<Rightarrow> session \<Rightarrow> event \<Rightarrow> outcome option" where
  "step ch s (Start m t) =
     Some (start s (case m of None \<Rightarrow> message s | Some x \<Rightarrow> x)
                   (case t of None \<Rightarrow> autoStopTimer s | Some n \<Rightarrow> n))"
| "step ch s Stop = Some (stop s)"
| "step ch s (Success m) = Some (success ch m s)"
| "step ch s (Error m) = Some (error ch m s)"
| "step ch s (Log m) = Some (log' m s)"
| "step ch s (Readable buf) = Some (Returned (readable buf s))"
| "step ch s (Tick h) = tick ch h s"
| "step ch s (Expire k) = expire k s"

fun run :: "chalk \<Rightarrow> session \<Rightarrow> event list \<Rightarrow> session option" where
  "run ch s [] = Some s"
| "run ch s (e # es) = (case step ch s e of None \<Rightarrow> None | Some r \<Rightarrow> run ch (state_of r) es)"

text \<open>A plain terminal: \<open>chalk\<close> at colour level 0 returns its argument.\<close>

definition plain :: chalk where
  "plain = \<lparr>cyan = (\<lambda>x. x), yellow = (\<lambda>x. x), green = (\<lambda>x. x), red = (\<lambda>x. x)\<rparr>"

subsection \<open>Notions the properties are stated with\<close>

definition is_Start :: "event \<Rightarrow> bool" where
  "is_Start e = (case e of Start _ _ \<Rightarrow> True | _ \<Rightarrow> False)"

text \<open>
  A session is \<open>calm\<close> when it has a pending cursor query and no timer, or no pending
  query and at most the one timer that \<open>id'\<close> names; \<open>quiet\<close> when it has neither.
  Timer handles are fresh when every active one is below the next to be handed out.
\<close>

definition calm :: "session \<Rightarrow> bool" where
  "calm s = (case intervals s of
       [] \<Rightarrow> length (listeners s) \<le> 1
     | [kv] \<Rightarrow> listeners s = [] \<and> id' s = Some (fst kv)
     | _ \<Rightarrow> False)"

definition fresh_handles :: "session \<Rightarrow> bool" where
  "fresh_handles s = list_all (\<lambda>kv. fst kv < next_handle s) (intervals s)"

definition quiet :: "session \<Rightarrow> bool" where
  "quiet s = (intervals s = [] \<and> listeners s = [])"

text \<open>
  A sequence of events is \<open>disciplined\<close> from \<open>s\<close> when every event of it can happen and
  \<open>start\<close> is never called while a cursor query is pending.
\<close>

fun disciplined :: "chalk \<Rightarrow> session \<Rightarrow> event list \<Rightarrow> bool" where
  "disciplined ch s [] = True"
| "disciplined ch s (e # es) = (case step ch s e of
       None \<Rightarrow> False
     | Some r \<Rightarrow> (if is_Start e then listeners s = [] else True) \<and> disciplined ch (state_of r) es)"

text \<open>
  What the tick number \<open>n\<close> (from 0) of the timer \<open>h\<close> writes, after \<open>n\<close> ticks from \<open>s\<close>;
  nothing when that tick cannot happen or raises.
\<close>

definition nth_tick_write :: "chalk \<Rightarrow> nat \<Rightarrow> session \<Rightarrow> nat \<Rightarrow> effect option" where
  "nth_tick_write ch h s n = (case run ch s (replicate n (Tick h)) of
       None \<Rightarrow> None
     | Some s' \<Rightarrow> (case tick ch h s' of
                    Some (Returned s'') \<Rightarrow> Some (last (out s''))
                  | _ \<Rightarrow> None))"

text \<open>The session of \<open>progress("Loading...")\<close> once the reply \<open>ESC[12;1R\<close> has been read.\<close>

definition reply_12_1 :: jsstring where
  "reply_12_1 = cursor_reply (lit ''12'') (lit ''1'')"

definition animating :: session where
  "animating = readable (Some reply_12_1) (progress (lit ''Loading...'') None)"

text \<open>The same session when the reply read is \<open>ESC[abcR\<close>: the captured row is \<open>NaN\<close>.\<close>

definition animating_NaN :: session where
  "animating_NaN = readable (Some ([27, 91] @ lit ''abcR'')) (progress (lit ''Loading...'') None)"

text \<open>What a run has written, and the timers it has left active; nothing if it cannot happen.\<close>

definition written :: "session option \<Rightarrow> effect list" where
  "written r = (case r of None \<Rightarrow> [] | Some s \<Rightarrow> out s)"

definition active_timers :: "session option \<Rightarrow> (nat \<times> interval) list" where
  "active_timers r = (case r of None \<Rightarrow> [] | Some s \<Rightarrow> intervals s)"

section \<open>parseArgs\<close>

text \<open>
  The ways \<open>/^--.+=/\<close> can match, in the order the engine tries them: \<open>.+\<close> first takes
  the longest run of characters that are not line terminators and gives them back one by
  one. Each way is given by what is left of the argument after the \<open>=\<close>.
\<close>

definition eq_splits :: "jsstring \<Rightarrow> jsstring list" where
  "eq_splits arg = (if starts_with arg (lit ''--'') then
       let body = drop 2 arg;
           n = length (takeWhile is_dot body)
       in map (\<lambda>p. drop (Suc p) body) (filter (\<lambda>p. body ! p = 61) (rev [1..<n]))
     else [])"

text \<open>\<open>/^--.+=\bfalse\b/.test(arg)\<close>\<close>

definition test_false :: "jsstring \<Rightarrow> bool" where
  "test_false arg = list_ex (\<lambda>y. starts_with y (lit ''false'') \<and>
       (case drop 5 y of [] \<Rightarrow> True | c # _ \<Rightarrow> \<not> is_word c)) (eq_splits arg)"

text \<open>\<open>/^-\w$|^--[^=]+$/.test(arg)\<close>\<close>

definition test_flag :: "jsstring \<Rightarrow> bool" where
  "test_flag arg = ((length arg = 2 \<and> arg ! 0 = 45 \<and> is_word (arg ! 1)) \<or>
       (starts_with arg (lit ''--'') \<and> drop 2 arg \<noteq> [] \<and> list_all (\<lambda>c. c \<noteq> 61) (drop 2 arg)))"

text \<open>\<open>/^--.+=\d+$/.test(arg)\<close>\<close>

definition test_number :: "jsstring \<Rightarrow> bool" where
  "test_number arg = list_ex (\<lambda>y. y \<noteq> [] \<and> list_all is_digit y) (eq_splits arg)"

text \<open>\<open>/^--.+=.+$/.test(arg)\<close>\<close>

definition test_string :: "jsstring \<Rightarrow> bool" where
  "test_string arg = list_ex (\<lambda>y. y \<noteq> [] \<and> list_all is_dot y) (eq_splits arg)"

text \<open>\<open>arg.replace(/^--.+=/, '')\<close>: the first way is the one taken.\<close>

definition strip_assign :: "jsstring \<Rightarrow> jsstring" where
  "strip_assign arg = (case eq_splits arg of [] \<Rightarrow> arg | y # _ \<Rightarrow> y)"

text \<open>\<open>.replace(/^-{1,2}/, '')\<close>\<close>

definition strip_dashes :: "jsstring \<Rightarrow> jsstring" where
  "strip_dashes arg = (if starts_with arg (lit ''--'') then drop 2 arg
     else if starts_with arg (lit ''-'') then drop 1 arg
     else arg)"

text \<open>
  \<open>.replace(/=.+/, '')\<close>: the first \<open>=\<close> that a character other than a line terminator
  follows is removed with the rest of its line.
\<close>

fun strip_value :: "jsstring \<Rightarrow> jsstring" where
  "strip_value [] = []"
| "strip_value [c] = [c]"
| "strip_value (c # d # cs) =
     (if c = 61 \<and> is_dot d then dropWhile is_dot (d # cs) else c # strip_value (d # cs))"

definition toUpperCase :: "nat \<Rightarrow> nat" where
  "toUpperCase c = (if 97 \<le> c \<and> c \<le> 122 then c - 32 else c)"

text \<open>\<open>.replace(/-\w/gi, t => t.substring(1).toUpperCase())\<close>\<close>

fun camel_case :: "jsstring \<Rightarrow> jsstring" where
  "camel_case [] = []"
| "camel_case [c] = [c]"
| "camel_case (c # d # cs) =
     (if c = 45 \<and> is_word d then toUpperCase d # camel_case cs else c # camel_case (d # cs))"

datatype argval = ABool bool | ANum jsnum | AStr jsstring | AArr "jsstring list"

type_synonym results = "jsstring \<rightharpoonup> argval"

text \<open>
  \<open>results[key] = value\<close> for a value that is not an object: an own property, except
  under the key \<open>__proto__\<close>, whose setter ignores such a value.
\<close>

definition assign :: "results \<Rightarrow> jsstring \<Rightarrow> argval \<Rightarrow> results" where
  "assign res k v = (if k = lit ''__proto__'' then res else res(k \<mapsto> v))"

definition arg_key :: "jsstring \<Rightarrow> jsstring" where
  "arg_key arg = (if starts_with arg (lit ''-'')
     then camel_case (strip_value (strip_dashes arg))
     else lit ''args'')"

text \<open>\<open>number ?? boolean ?? string ?? withoutFlag\<close>, \<open>None\<close> for \<open>null\<close>.\<close>

definition arg_value :: "jsstring \<Rightarrow> argval option" where
  "arg_value arg = (let
       boolean = (if test_false arg then Some False else if test_flag arg then Some True else None);
       number = (if test_number arg then Some (toNumber (strip_assign arg)) else None);
       string = (if (case number of None \<Rightarrow> True | Some n \<Rightarrow> \<not> truthy_num n) \<and> test_string arg
                 then Some (strip_assign arg) else None);
       withoutFlag = (if \<not> starts_with arg (lit ''-'') then Some arg else None)
     in case number of Some n \<Rightarrow> Some (ANum n)
        | None \<Rightarrow> (case boolean of Some b \<Rightarrow> Some (ABool b)
            | None \<Rightarrow> (case string of Some x \<Rightarrow> Some (AStr x)
                | None \<Rightarrow> map_option AStr withoutFlag)))"

text \<open>One turn of the loop over the arguments.\<close>

definition parse_arg :: "results \<Rightarrow> jsstring \<Rightarrow> results" where
  "parse_arg res arg = (let key = arg_key arg in
     if key = lit ''args'' \<and> \<not> starts_with arg (lit ''-'') \<and> arg \<noteq> [] then
       (case res key of
          Some (AArr args) \<Rightarrow> res(key \<mapsto> AArr (args @ [arg]))
        | _ \<Rightarrow> res(key \<mapsto> AArr [arg]))
     else (case arg_value arg of
             None \<Rightarrow> res
           | Some v \<Rightarrow> assign res key v))"

text \<open>\<open>argv\<close> is \<open>process.argv\<close>: the interpreter, the script, then the arguments.\<close>

definition parseArgs :: "jsstring list \<Rightarrow> results" where
  "parseArgs argv = foldl parse_arg Map.empty (drop 2 argv)"

text \<open>
  The arguments that do not begin with \<open>-\<close>, in their order, and the arguments that
  upset their collection: the empty string, and a flag that assigns the key \<open>args\<close>.
\<close>

definition positional :: "jsstring list \<Rightarrow> jsstring list" where
  "positional xs = filter (\<lambda>a. \<not> starts_with a (lit ''-'')) xs"

definition overwrites_args :: "jsstring \<Rightarrow> bool" where
  "overwrites_args a = (a = [] \<or>
     (starts_with a (lit ''-'') \<and> arg_key a = lit ''args'' \<and> arg_value a \<noteq> None))"

section \<open>Properties\<close>

subsection \<open>Rounding to a double\<close>

lemma bitlen_1: "bitlen 1 = 1" by (simp add: bitlen_alt_def)

lemma round_even_of_int: "round_even (of_int z) = z"
  by (simp add: round_even_def)

lemma ilog2_of_nat:
  assumes "0 < n"
  shows "ilog2 (of_int (int n)) = bitlen (int n) - 1"
proof -
  have b: "2 ^ nat (bitlen (int n) - 1) \<le> int n" using bitlen_bounds[of "int n"] assms by simp
  have ge: "0 \<le> bitlen (int n) - 1" using assms by (simp add: bitlen_alt_def)
  have "(2::rat) powi (bitlen (int n) - 1) = 2 ^ nat (bitlen (int n) - 1)"
    using ge by (simp add: power_int_def)
  also have "\<dots> = of_int (2 ^ nat (bitlen (int n) - 1))" by simp
  also have "\<dots> \<le> of_int (int n)" using b by (simp only: of_int_le_iff)
  finally show ?thesis by (simp add: ilog2_def bitlen_1 Let_def)
qed


lemma to_double_of_nat:
  assumes "n \<le> 2 ^ 53"
  shows "to_double (of_int (int n)) = Num (of_int (int n))"
proof (cases "n = 0")
  case True
  then show ?thesis by (simp add: to_double_def)
next
  case False
  then have pos: "0 < n" by simp
  define x :: rat where "x = of_int (int n)"
  define k where "k = bitlen (int n) - 1"
  have il: "ilog2 x = k" using ilog2_of_nat[OF pos] by (simp add: k_def x_def)
  have k0: "0 \<le> k" using pos by (simp add: k_def bitlen_alt_def)
  have lo: "2 ^ nat k \<le> int n" using bitlen_bounds[of "int n"] pos by (simp add: k_def)
  have "int n \<le> int (2 ^ 53)" using assms by (simp only: of_nat_le_iff)
  then have nn: "int n \<le> 2 ^ 53" by simp
  have le53: "(2::int) ^ nat k \<le> 2 ^ 53" using lo nn by (rule order_trans)
  have "nat k \<le> 53" by (rule power_le_imp_le_exp[of "2::int"], simp, rule le53)
  then have k53: "k \<le> 53" using k0 by simp
  have npos: "0 < x" using pos by (simp add: x_def)
  have small: "x < 2 ^ 1024"
  proof -
    have "int n \<le> 2 ^ 53" by (rule nn)
    also have "\<dots> < (2::int) ^ 1024" by simp
    finally have "int n < 2 ^ 1024" .
    then have "(of_int (int n) :: rat) < of_int (2 ^ 1024)" by (simp only: of_int_less_iff)
    then show ?thesis by (simp add: x_def)
  qed
  have "to_double x = Num x"
  proof (cases "k \<le> 52")
    case True
    define j where "j = nat (52 - k)"
    have u: "max k (- 1022) - 52 = - int j" using True k0 by (simp add: j_def)
    have p: "(2::rat) powi (- int j) = 1 / 2 ^ j" by (simp add: power_int_def field_simps)
    have q: "x / (2::rat) powi (- int j) = of_int (int n * 2 ^ j)" by (simp add: p x_def)
    have r: "of_int (round_even (x / (2::rat) powi (- int j))) * (2::rat) powi (- int j) = x"
      by (simp only: q round_even_of_int) (simp add: p x_def)
    show ?thesis using npos small
      by (simp add: to_double_def il u Let_def r)
  next
    case False
    with k53 have k: "k = 53" by simp
    have "2 ^ 53 \<le> int n" using lo k by simp
    then have n: "int n = 2 ^ 53" using nn by (rule order_antisym[rotated])
    have q: "x / 2 = of_int (2 ^ 52)" by (simp add: n x_def)
    have r: "round_even (x / 2) = 2 ^ 52"
      by (simp only: q round_even_of_int)
    have x: "x = 2 ^ 53" by (simp add: n x_def)
    show ?thesis using npos small
      by (simp add: to_double_def il k Let_def r) (simp add: x)
  qed
  then show ?thesis by (simp only: x_def)
qed

lemma to_double_nat: "n \<le> 2 ^ 53 \<Longrightarrow> to_double (of_nat n) = Num (of_nat n)"
  using to_double_of_nat[of n] by simp

lemma bitlen_2p53_1: "bitlen 9007199254740993 = 54"
proof -
  have "bitlen 9007199254740993 \<le> 54" by (simp add: bitlen_le_iff_power)
  moreover have "54 \<le> bitlen 9007199254740993" by (simp add: bitlen_ge_iff_power)
  ultimately show ?thesis by simp
qed

lemma ilog2_2p53_1: "ilog2 9007199254740993 = 53"
  using ilog2_of_nat[of 9007199254740993] by (simp add: bitlen_2p53_1)

lemma floor_tie: "\<lfloor>(9007199254740993::rat) / 2\<rfloor> = 4503599627370496"
  by (rule floor_unique) simp_all

lemma round_even_tie: "round_even (9007199254740993 / 2) = 4503599627370496"
  by (simp add: round_even_def Let_def floor_tie)

lemma to_double_2p53_1: "to_double 9007199254740993 = Num 9007199254740992"
  by (simp add: to_double_def ilog2_2p53_1 Let_def round_even_tie)

lemma js_incr_below: "n < 2 ^ 53 \<Longrightarrow> js_incr (Num (of_nat n)) = Num (of_nat (Suc n))"
  using to_double_nat[of "Suc n"] by (simp add: js_incr_def add.commute)

lemma js_incr_top: "js_incr (Num 9007199254740992) = Num 9007199254740992"
  by (simp add: js_incr_def to_double_2p53_1)

lemma frame_at_nat: "frame_at (Num (of_nat n)) = frames ! (n mod 10)"
  by (simp add: frame_at_def frames_def)

subsection \<open>Reading the cursor reply\<close>

lemma digit_not_space: "is_digit c \<Longrightarrow> \<not> is_str_white_space c"
  by (auto simp: is_digit_def is_str_white_space_def is_white_space_def is_line_terminator_def)

lemma digit_is_dot: "is_digit c \<Longrightarrow> is_dot c"
  by (auto simp: is_digit_def is_dot_def is_line_terminator_def)

lemma trim_digits:
  assumes "r \<noteq> []" "list_all is_digit r"
  shows "trim r = r"
proof -
  have h: "is_digit (hd r)" and l: "is_digit (last r)"
    using assms by (auto simp: list_all_iff)
  have a: "dropWhile is_str_white_space r = r"
    using h by (simp add: dropWhile_eq_self_iff digit_not_space)
  have b: "dropWhile is_str_white_space (rev r) = rev r"
    using l assms(1) by (simp add: dropWhile_eq_self_iff digit_not_space hd_rev)
  show ?thesis by (simp add: trim_def a b)
qed

lemma non_decimal_digits: "list_all is_digit r \<Longrightarrow> non_decimal r = None"
  by (auto simp: non_decimal_def is_digit_def split: list.splits)

lemma lit_Infinity: "lit ''Infinity'' = [73, 110, 102, 105, 110, 105, 116, 121]"
  by (simp add: lit_def)

lemma unsigned_decimal_digits:
  assumes "r \<noteq> []" "list_all is_digit r"
  shows "unsigned_decimal r = to_double (of_int (radix_val 10 r))"
proof -
  have t: "takeWhile is_digit r = r" using assms(2) by (simp add: takeWhile_eq_all_conv list_all_iff)
  have d: "dropWhile is_digit r = []" using assms(2) by (simp add: list_all_iff)
  have "is_digit (hd r)" using assms by (auto simp: list_all_iff)
  then have n: "r \<noteq> lit ''Infinity''" by (auto simp: lit_Infinity is_digit_def)
  show ?thesis using assms(1) n
    by (simp add: unsigned_decimal_def t d Let_def exponent_part_def)
qed

lemma toNumber_digits:
  assumes "r \<noteq> []" "list_all is_digit r"
  shows "toNumber r = to_double (of_int (radix_val 10 r))"
proof -
  obtain c cs where r: "r = c # cs" using assms(1) by (cases r) auto
  have "is_digit c" using assms(2) r by simp
  then have c: "c \<noteq> 43" "c \<noteq> 45" by (auto simp: is_digit_def)
  have t: "trim (c # cs) = c # cs" using trim_digits[OF assms] by (simp add: r)
  have n: "non_decimal (c # cs) = None" using non_decimal_digits[OF assms(2)] by (simp add: r)
  have u: "unsigned_decimal (c # cs) = to_double (of_int (radix_val 10 (c # cs)))"
    using unsigned_decimal_digits[OF assms] by (simp add: r)
  show ?thesis using c by (simp add: toNumber_def Let_def r t n u)
qed

lemma foldl_radix_nonneg:
  "0 \<le> a \<Longrightarrow> list_all is_digit ds \<Longrightarrow> 0 \<le> foldl (\<lambda>a d. 10 * a + digit_val d) a ds"
proof (induction ds arbitrary: a)
  case Nil
  then show ?case by simp
next
  case (Cons d ds)
  have "0 \<le> digit_val d" using Cons.prems(2) by (simp add: digit_val_def is_digit_def)
  then have "0 \<le> 10 * a + digit_val d" using Cons.prems(1) by simp
  then show ?case using Cons.IH Cons.prems(2) by simp
qed

lemma radix_val_nonneg: "list_all is_digit ds \<Longrightarrow> 0 \<le> radix_val 10 ds"
  by (simp add: radix_val_def foldl_radix_nonneg)

lemma toNumber_digits_exact:
  assumes "r \<noteq> []" "list_all is_digit r" "radix_val 10 r \<le> 2 ^ 53"
  shows "toNumber r = Num (of_int (radix_val 10 r))"
proof -
  define n where "n = nat (radix_val 10 r)"
  have v: "radix_val 10 r = int n" using radix_val_nonneg[OF assms(2)] by (simp add: n_def)
  have "int n \<le> int (2 ^ 53)" using assms(3) v by simp
  then have "n \<le> 2 ^ 53" by (simp only: of_nat_le_iff)
  then show ?thesis using to_double_of_nat[of n] by (simp add: toNumber_digits[OF assms(1,2)] v)
qed

lemma toNumber_zero: "toNumber (lit ''0'') = Num 0"
proof -
  have "toNumber [48] = to_double (of_int (radix_val 10 [48]))"
    by (rule toNumber_digits) (simp_all add: is_digit_def)
  then show ?thesis by (simp add: lit_def radix_val_def digit_val_def is_digit_def to_double_def)
qed

lemma quote_digits: "list_all is_digit r \<Longrightarrow> concat (map quote_char r) = r"
  by (induction r) (auto simp: quote_char_def is_digit_def)

lemma hex_digit_no_bracket: "hex_digit d \<noteq> 91"
  by (simp add: hex_digit_def)

lemma unicode_escape_no_bracket: "91 \<notin> set (unicode_escape c)"
  using hex_digit_no_bracket[of "c div 4096 mod 16"] hex_digit_no_bracket[of "c div 256 mod 16"]
    hex_digit_no_bracket[of "c div 16 mod 16"] hex_digit_no_bracket[of "c mod 16"]
  by (simp add: unicode_escape_def del: div_mult2_eq)

lemma quote_char_no_bracket: "c \<noteq> 91 \<Longrightarrow> 91 \<notin> set (quote_char c)"
  by (simp add: quote_char_def unicode_escape_no_bracket)

lemma stringify_no_bracket:
  assumes "91 \<notin> set b"
  shows "91 \<notin> set (JSON_stringify (Some b))"
proof -
  have "91 \<notin> set (concat (map quote_char b))" using assms
    by (induction b) (simp_all add: quote_char_no_bracket)
  then show ?thesis by (simp add: JSON_stringify_def)
qed

lemma exec_bracket_none: "91 \<notin> set str \<Longrightarrow> exec_bracket str = None"
proof -
  assume a: "91 \<notin> set str"
  have "dropWhile (\<lambda>c. c \<noteq> 91) str = []" using a by auto
  then show ?thesis by (simp add: exec_bracket_def)
qed

lemma cursor_position_no_bracket:
  assumes "91 \<notin> set b"
  shows "cursor_position (Some b) = \<lparr>rows = Num 0, cols = Num 0\<rparr>"
  by (simp add: cursor_position_def Let_def exec_bracket_none[OF stringify_no_bracket[OF assms]]
      piece_or_zero_def toNumber_zero)

lemma cursor_position_null: "cursor_position None = \<lparr>rows = Num 0, cols = Num 0\<rparr>"
proof -
  have "exec_bracket (JSON_stringify None) = None"
    by (rule exec_bracket_none) (simp add: JSON_stringify_def lit_def)
  then show ?thesis by (simp add: cursor_position_def Let_def piece_or_zero_def toNumber_zero)
qed

lemma strip_brackets_open: "strip_brackets (91 # cs) = strip_brackets cs"
  by (cases cs) simp_all

lemma strip_brackets_keep: "c \<noteq> 91 \<Longrightarrow> c \<noteq> 82 \<Longrightarrow> strip_brackets (c # cs) = c # strip_brackets cs"
  by (cases cs) simp_all

lemma strip_brackets_digits:
  "list_all is_digit r \<Longrightarrow> strip_brackets (r @ 59 # ys) = r @ 59 # strip_brackets ys"
proof (induction r)
  case Nil
  show ?case by (simp add: strip_brackets_keep)
next
  case (Cons d r)
  then have "d \<noteq> 91" "d \<noteq> 82" by (auto simp: is_digit_def)
  then show ?case using Cons by (simp add: strip_brackets_keep)
qed

lemma js_split_digits:
  "list_all is_digit r \<Longrightarrow> js_split 59 (r @ 59 # ys) = r # js_split 59 ys"
  by (induction r) (auto simp: is_digit_def)

lemma takeWhile_dot_digits:
  "list_all is_digit r \<Longrightarrow> takeWhile is_dot (r @ ys) = r @ takeWhile is_dot ys"
  by (induction r) (auto simp: digit_is_dot)

lemma exec_bracket_reply:
  assumes "list_all is_digit r"
  shows "exec_bracket (JSON_stringify (Some (cursor_reply r c)))
         = Some (91 # r @ 59 # takeWhile is_dot (concat (map quote_char c) @ [82, 34]))"
proof -
  have q: "quote_char 27 = [92, 117, 48, 48, 49, 98]" "quote_char 91 = [91]"
      "quote_char 59 = [59]" "quote_char 82 = [82]"
    by (simp_all add: quote_char_def unicode_escape_def hex_digit_def)
  have j: "JSON_stringify (Some (cursor_reply r c))
      = [34, 92, 117, 48, 48, 49, 98] @ 91 # r @ 59 # (concat (map quote_char c) @ [82, 34])"
    by (simp add: JSON_stringify_def cursor_reply_def q quote_digits[OF assms])
  have d: "is_dot 91" "is_dot 59" by (simp_all add: is_dot_def is_line_terminator_def)
  show ?thesis
    by (simp add: j exec_bracket_def Let_def d takeWhile_dot_digits[OF assms])
qed

lemma rows_reply:
  assumes "r \<noteq> []" "list_all is_digit r"
  shows "rows (cursor_position (Some (cursor_reply r c))) = toNumber r"
  using assms(1)
  by (simp add: cursor_position_def Let_def exec_bracket_reply[OF assms(2)] strip_brackets_open
      strip_brackets_digits[OF assms(2)] js_split_digits[OF assms(2)] piece_or_zero_def)

subsection \<open>The session, field by field\<close>

lemma state_of_simps [simp]: "state_of (Returned s) = s" "state_of (Thrown s) = s"
  by (simp_all add: state_of_def)

lemma and_then_simps [simp]:
  "and_then (Returned s) f = f s" "and_then (Thrown s) f = Thrown s"
  by (simp_all add: and_then_def)

lemma emit_fields [simp]:
  "listeners (emit es s) = listeners s" "sleeps (emit es s) = sleeps s"
  "rowNumber (emit es s) = rowNumber s" "id' (emit es s) = id' s"
  "next_handle (emit es s) = next_handle s" "intervals (emit es s) = intervals s"
  "out (emit es s) = out s @ es" "message (emit es s) = message s"
  "autoStopTimer (emit es s) = autoStopTimer s"
  by (simp_all add: emit_def)

lemma emit_emit: "emit ys (emit xs s) = emit (xs @ ys) s"
  by (simp add: emit_def)

lemma cursorTo_ok: "y \<noteq> Some NaN \<Longrightarrow> cursorTo x y s = Returned (emit [CursorTo x y] s)"
  by (simp add: cursorTo_def)

lemma cursorTo_NaN: "cursorTo x (Some NaN) s = Thrown (emit [CursorTo x (Some NaN)] s)"
  by (simp add: cursorTo_def)

lemma stop_idle: "id' s = None \<Longrightarrow> stop s = Returned s"
  by (simp add: stop_def)

lemma stop_active:
  "id' s = Some h \<Longrightarrow> rowNumber s \<noteq> Some NaN \<Longrightarrow>
   stop s = Returned (emit [CursorTo 0 (rowNumber s), ClearLine 0] (clearInterval h s))"
  by (simp add: stop_def cursorTo_ok emit_emit)

lemma stop_active_NaN:
  "id' s = Some h \<Longrightarrow> rowNumber s = Some NaN \<Longrightarrow>
   stop s = Thrown (emit [CursorTo 0 (Some NaN)] (clearInterval h s))"
  by (simp add: stop_def cursorTo_NaN)

lemma stop_cases:
  "(stop s = Returned (state_of (stop s)) \<and> (id' s = None \<or> rowNumber s \<noteq> Some NaN)) \<or>
   (stop s = Thrown (state_of (stop s)) \<and> id' s \<noteq> None \<and> rowNumber s = Some NaN)"
proof (cases "id' s")
  case None
  then show ?thesis by (simp add: stop_idle)
next
  case (Some h)
  show ?thesis
  proof (cases "rowNumber s = Some NaN")
    case True
    then show ?thesis using Some by (simp add: stop_active_NaN)
  next
    case False
    then show ?thesis using Some by (simp add: stop_active)
  qed
qed

lemma stop_returns: "rowNumber s \<noteq> Some NaN \<Longrightarrow> stop s = Returned (state_of (stop s))"
  using stop_cases[of s] by auto

lemma stop_fields [simp]:
  "listeners (state_of (stop s)) = listeners s" "sleeps (state_of (stop s)) = sleeps s"
  "rowNumber (state_of (stop s)) = rowNumber s" "id' (state_of (stop s)) = id' s"
  "next_handle (state_of (stop s)) = next_handle s" "message (state_of (stop s)) = message s"
  "autoStopTimer (state_of (stop s)) = autoStopTimer s"
  by (simp_all add: stop_def cursorTo_def clearInterval_def split: option.splits)

lemma stop_out:
  "out (state_of (stop s)) = (case id' s of None \<Rightarrow> out s
     | Some h \<Rightarrow> if rowNumber s = Some NaN then out s @ [CursorTo 0 (Some NaN)]
                else out s @ [CursorTo 0 (rowNumber s), ClearLine 0])"
  by (simp add: stop_def cursorTo_def clearInterval_def split: option.splits)

lemma stop_intervals:
  "intervals (state_of (stop s)) = (case id' s of None \<Rightarrow> intervals s
                    | Some h \<Rightarrow> filter (\<lambda>kv. fst kv \<noteq> h) (intervals s))"
  by (simp add: stop_def cursorTo_def clearInterval_def split: option.splits)

lemma start_thrown: "stop s = Thrown s1 \<Longrightarrow> start s m t = Thrown s1"
  by (simp add: start_def)

lemma start_returned:
  "stop s = Returned s1 \<Longrightarrow>
   start s m t = Returned
     ((if truthy_num t then (\<lambda>x. x\<lparr>sleeps := sleeps x @ [t]\<rparr>) else (\<lambda>x. x))
        (emit [Resume, StdoutWrite (27 # lit ''[6n'')]
          ((emit [StdoutWrite [10], SetEncoding (lit ''utf8''), SetRawMode True] s1)
             \<lparr>listeners := listeners s1 @ [m]\<rparr>)))"
  by (simp add: start_def Let_def)

lemma start_fields [simp]:
  "intervals (state_of (start s m t)) = intervals (state_of (stop s))"
  "rowNumber (state_of (start s m t)) = rowNumber s" "id' (state_of (start s m t)) = id' s"
  "next_handle (state_of (start s m t)) = next_handle s"
  using stop_cases[of s]
  by (auto simp: start_returned[of s "state_of (stop s)"] start_thrown[of s "state_of (stop s)"])

lemma start_listeners:
  "listeners (state_of (start s m t)) =
     (if id' s \<noteq> None \<and> rowNumber s = Some NaN then listeners s else listeners s @ [m])"
  using stop_cases[of s]
  by (auto simp: start_returned[of s "state_of (stop s)"] start_thrown[of s "state_of (stop s)"])

lemma start_sleeps:
  "sleeps (state_of (start s m t)) =
     (if (id' s \<noteq> None \<and> rowNumber s = Some NaN) \<or> \<not> truthy_num t then sleeps s else sleeps s @ [t])"
  using stop_cases[of s]
  by (auto simp: start_returned[of s "state_of (stop s)"] start_thrown[of s "state_of (stop s)"])

lemma on_readable_fields [simp]:
  "listeners (on_readable m b s) = listeners s" "sleeps (on_readable m b s) = sleeps s"
  "rowNumber (on_readable m b s) = Some (rows (cursor_position b))"
  "id' (on_readable m b s) = Some (next_handle s)"
  "next_handle (on_readable m b s) = Suc (next_handle s)"
  "intervals (on_readable m b s) = intervals s @ [(next_handle s, (Num 0, m))]"
  "out (on_readable m b s) = out s @ [SetRawMode False]"
  by (simp_all add: on_readable_def Let_def)

lemma stop_then_fields:
  "listeners (state_of (and_then (stop s) (\<lambda>s1. Returned (emit es s1)))) = listeners s"
  "intervals (state_of (and_then (stop s) (\<lambda>s1. Returned (emit es s1)))) = intervals (state_of (stop s))"
  "id' (state_of (and_then (stop s) (\<lambda>s1. Returned (emit es s1)))) = id' s"
  "next_handle (state_of (and_then (stop s) (\<lambda>s1. Returned (emit es s1)))) = next_handle s"
  "sleeps (state_of (and_then (stop s) (\<lambda>s1. Returned (emit es s1)))) = sleeps s"
  "rowNumber (state_of (and_then (stop s) (\<lambda>s1. Returned (emit es s1)))) = rowNumber s"
proof -
  obtain x where x: "stop s = Returned x \<or> stop s = Thrown x" by (cases "stop s") auto
  then have sx: "state_of (stop s) = x" by auto
  have e: "state_of (and_then (stop s) (\<lambda>s1. Returned (emit es s1))) = x \<or>
           state_of (and_then (stop s) (\<lambda>s1. Returned (emit es s1))) = emit es x"
    using x by auto
  have f: "listeners x = listeners s" "id' x = id' s" "next_handle x = next_handle s"
    "sleeps x = sleeps s" "rowNumber x = rowNumber s"
    using stop_fields[of s] by (simp_all add: sx)
  show "listeners (state_of (and_then (stop s) (\<lambda>s1. Returned (emit es s1)))) = listeners s"
    "intervals (state_of (and_then (stop s) (\<lambda>s1. Returned (emit es s1)))) = intervals (state_of (stop s))"
    "id' (state_of (and_then (stop s) (\<lambda>s1. Returned (emit es s1)))) = id' s"
    "next_handle (state_of (and_then (stop s) (\<lambda>s1. Returned (emit es s1)))) = next_handle s"
    "sleeps (state_of (and_then (stop s) (\<lambda>s1. Returned (emit es s1)))) = sleeps s"
    "rowNumber (state_of (and_then (stop s) (\<lambda>s1. Returned (emit es s1)))) = rowNumber s"
    using e f by (auto simp: sx)
qed

lemma success_fields [simp]:
  "listeners (state_of (success ch m s)) = listeners s"
  "intervals (state_of (success ch m s)) = intervals (state_of (stop s))"
  "id' (state_of (success ch m s)) = id' s" "next_handle (state_of (success ch m s)) = next_handle s"
  "sleeps (state_of (success ch m s)) = sleeps s" "rowNumber (state_of (success ch m s)) = rowNumber s"
  by (simp_all add: success_def Let_def stop_then_fields)

lemma error_fields [simp]:
  "listeners (state_of (error ch m s)) = listeners s"
  "intervals (state_of (error ch m s)) = intervals (state_of (stop s))"
  "id' (state_of (error ch m s)) = id' s" "next_handle (state_of (error ch m s)) = next_handle s"
  "sleeps (state_of (error ch m s)) = sleeps s" "rowNumber (state_of (error ch m s)) = rowNumber s"
  by (simp_all add: error_def Let_def stop_then_fields)

lemma log_fields [simp]:
  "listeners (state_of (log' m s)) = listeners s"
  "intervals (state_of (log' m s)) = intervals (state_of (stop s))"
  "id' (state_of (log' m s)) = id' s" "next_handle (state_of (log' m s)) = next_handle s"
  "sleeps (state_of (log' m s)) = sleeps s" "rowNumber (state_of (log' m s)) = rowNumber s"
  by (simp_all add: log'_def stop_then_fields)

lemma run_listeners_snoc:
  "run_listeners (ms @ [m]) b s = on_readable m (if ms = [] then b else None) (run_listeners ms b s)"
  by (induction ms arbitrary: b s) simp_all

lemma fresh_on_readable: "fresh_handles s \<Longrightarrow> fresh_handles (on_readable m b s)"
  by (auto simp: fresh_handles_def list_all_iff)

lemma fresh_run_listeners: "fresh_handles s \<Longrightarrow> fresh_handles (run_listeners ms b s)"
  by (induction ms arbitrary: b s) (simp_all add: fresh_on_readable)

lemma fresh_stop: "fresh_handles s \<Longrightarrow> fresh_handles (state_of (stop s))"
  by (auto simp: fresh_handles_def list_all_iff stop_intervals split: option.splits)

lemma map_of_fresh:
  "fresh_handles s \<Longrightarrow> map_of (intervals s @ [(next_handle s, v)]) (next_handle s) = Some v"
proof -
  assume "fresh_handles s"
  then have "next_handle s \<notin> fst ` set (intervals s)"
    by (auto simp: fresh_handles_def list_all_iff)
  then have "map_of (intervals s) (next_handle s) = None" by (simp add: map_of_eq_None_iff)
  then show ?thesis by (simp add: map_add_def)
qed

lemma frame_at_0: "frame_at (Num 0) = frames ! 0"
  using frame_at_nat[of 0] by simp

lemma map_of_update:
  "map_of xs h = Some v \<Longrightarrow>
   map_of (map (\<lambda>kv. if fst kv = h then (h, v') else kv) xs) h = Some v'"
  by (induction xs) (auto split: if_splits)

lemma tick_enabled: "map_of (intervals s) h = Some iv \<Longrightarrow> \<exists>r. tick ch h s = Some r"
  by (simp add: tick_def)

lemma tick_NaN:
  "map_of (intervals s) h = Some iv \<Longrightarrow> rowNumber s = Some NaN \<Longrightarrow>
   tick ch h s = Some (Thrown (emit [CursorTo 0 (Some NaN)] s))"
  by (simp add: tick_def cursorTo_NaN)

lemma tick_general:
  assumes "map_of (intervals s) h = Some (c, m)" and "rowNumber s \<noteq> Some NaN"
  shows "\<exists>s'. tick ch h s = Some (Returned s') \<and> map_of (intervals s') h = Some (js_incr c, m) \<and>
     rowNumber s' = rowNumber s \<and>
     out s' = out s @ [CursorTo 0 (rowNumber s), ClearLine 0,
        StdoutWrite (cyan ch (frame_at c) @ [32] @ yellow ch m)]"
  using assms map_of_update[OF assms(1), of "(js_incr c, m)"]
  by (simp add: tick_def Let_def cursorTo_ok cong: if_cong)

lemma readable_pending:
  assumes "fresh_handles s" "listeners s = ms @ [m]"
  shows "\<exists>h. id' (readable b s) = Some h \<and> map_of (intervals (readable b s)) h = Some (Num 0, m)"
proof -
  define s0 where "s0 = run_listeners ms b (s\<lparr>listeners := []\<rparr>)"
  have f0: "fresh_handles s0" unfolding s0_def
    by (rule fresh_run_listeners) (use assms(1) in \<open>simp add: fresh_handles_def\<close>)
  have r: "readable b s = on_readable m (if ms = [] then b else None) s0"
    by (simp add: readable_def assms(2) run_listeners_snoc s0_def)
  have "map_of (intervals (readable b s)) (next_handle s0) = Some (Num 0, m)"
    by (simp add: r map_of_fresh[OF f0] del: map_of_append)
  then show ?thesis by (auto simp: r)
qed

subsection \<open>Sessions with at most one timer\<close>

lemma tick_fields:
  assumes "tick ch h s = Some r"
  shows "listeners (state_of r) = listeners s" "id' (state_of r) = id' s"
    "sleeps (state_of r) = sleeps s" "rowNumber (state_of r) = rowNumber s"
    "next_handle (state_of r) = next_handle s"
    "map fst (intervals (state_of r)) = map fst (intervals s)"
proof -
  obtain iv where iv: "map_of (intervals s) h = Some iv"
    using assms by (auto simp: tick_def split: option.splits)
  have m: "map fst (map (\<lambda>kv. if fst kv = h then (h, (js_incr (fst iv), snd iv)) else kv) xs) = map fst xs"
    for xs :: "(nat \<times> interval) list"
    by (induction xs) auto
  show "listeners (state_of r) = listeners s" "id' (state_of r) = id' s"
    "sleeps (state_of r) = sleeps s" "rowNumber (state_of r) = rowNumber s"
    "next_handle (state_of r) = next_handle s"
    "map fst (intervals (state_of r)) = map fst (intervals s)"
    using assms by (auto simp: tick_def iv Let_def cursorTo_def m)
qed

lemma tick_disabled: "intervals s = [] \<Longrightarrow> tick ch h s = None"
  by (simp add: tick_def)

lemma calm_iff:
  "calm s \<longleftrightarrow> (map fst (intervals s) = [] \<and> length (listeners s) \<le> 1) \<or>
     (\<exists>k. map fst (intervals s) = [k] \<and> listeners s = [] \<and> id' s = Some k)"
  by (auto simp: calm_def split: list.splits)

lemma calm_cong:
  "map fst (intervals s') = map fst (intervals s) \<Longrightarrow> listeners s' = listeners s \<Longrightarrow>
   id' s' = id' s \<Longrightarrow> calm s' = calm s"
  by (simp add: calm_iff)

lemma calm_length: "calm s \<Longrightarrow> length (intervals s) \<le> 1"
  by (auto simp: calm_def split: list.splits)

lemma calm_stop_intervals: "calm s \<Longrightarrow> intervals (state_of (stop s)) = []"
  by (auto simp: calm_def stop_intervals split: list.splits option.splits)

lemma calm_stop: "calm s \<Longrightarrow> calm (state_of (stop s))"
proof -
  assume c: "calm s"
  have "length (listeners s) \<le> 1" using c by (auto simp: calm_def split: list.splits)
  then show ?thesis using calm_stop_intervals[OF c] by (simp add: calm_def)
qed

lemma calm_start: "calm s \<Longrightarrow> listeners s = [] \<Longrightarrow> calm (state_of (start s m t))"
  by (simp add: calm_def calm_stop_intervals start_listeners)

lemma calm_readable: "calm s \<Longrightarrow> calm (readable b s)"
proof -
  assume c: "calm s"
  show ?thesis
  proof (cases "listeners s")
    case Nil
    have "calm (s\<lparr>listeners := []\<rparr>) = calm s" by (rule calm_cong) (simp_all add: Nil)
    then show ?thesis using c by (simp add: readable_def Nil)
  next
    case (Cons m ms)
    then have ms: "ms = []" and iv: "intervals s = []"
      using c by (auto simp: calm_def split: list.splits)
    show ?thesis by (simp add: readable_def Cons ms calm_def iv)
  qed
qed

lemma calm_tick: "calm s \<Longrightarrow> tick ch h s = Some r \<Longrightarrow> calm (state_of r)"
  using calm_cong[of "state_of r" s] tick_fields[of ch h s r] by simp

lemma expire_eq: "expire k s = Some r \<Longrightarrow>
  k < length (sleeps s) \<and> r = stop (s\<lparr>sleeps := take k (sleeps s) @ drop (Suc k) (sleeps s)\<rparr>)"
  by (simp add: expire_def split: if_splits)

lemma calm_sleeps_update: "calm (s\<lparr>sleeps := x\<rparr>) = calm s"
  by (rule calm_cong) simp_all

lemma calm_expire: "calm s \<Longrightarrow> expire k s = Some r \<Longrightarrow> calm (state_of r)"
  using expire_eq[of k s r] calm_stop[of "s\<lparr>sleeps := take k (sleeps s) @ drop (Suc k) (sleeps s)\<rparr>"]
  by (simp add: calm_sleeps_update)

lemma calm_success: "calm s \<Longrightarrow> calm (state_of (success ch m s))"
  using calm_cong[of "state_of (success ch m s)" "state_of (stop s)"] calm_stop[of s] by simp

lemma calm_error: "calm s \<Longrightarrow> calm (state_of (error ch m s))"
  using calm_cong[of "state_of (error ch m s)" "state_of (stop s)"] calm_stop[of s] by simp

lemma calm_log: "calm s \<Longrightarrow> calm (state_of (log' m s))"
  using calm_cong[of "state_of (log' m s)" "state_of (stop s)"] calm_stop[of s] by simp

lemma calm_step:
  assumes "calm s" "step ch s e = Some r" "is_Start e \<Longrightarrow> listeners s = []"
  shows "calm (state_of r)"
proof (cases e)
  case (Start m t)
  then show ?thesis using assms by (auto simp: is_Start_def calm_start)
next
  case Stop
  then show ?thesis using assms by (auto simp: calm_stop)
next
  case (Success m)
  then show ?thesis using assms by (auto simp: calm_success)
next
  case (Error m)
  then show ?thesis using assms by (auto simp: calm_error)
next
  case (Log m)
  then show ?thesis using assms by (auto simp: calm_log)
next
  case (Readable b)
  then show ?thesis using assms by (auto simp: calm_readable)
next
  case (Tick h)
  then show ?thesis using assms calm_tick by auto
next
  case (Expire k)
  then show ?thesis using assms calm_expire by auto
qed

lemma quiet_stop: "quiet s \<Longrightarrow> quiet (state_of (stop s))"
  by (auto simp: quiet_def stop_intervals split: option.splits)

lemma calm_stop_quiet: "calm s \<Longrightarrow> listeners s = [] \<Longrightarrow> quiet (state_of (stop s))"
  by (simp add: quiet_def calm_stop_intervals)

lemma quiet_step:
  assumes "quiet s" "\<not> is_Start e" "step ch s e = Some r"
  shows "quiet (state_of r) \<and> (\<forall>h. e \<noteq> Tick h)"
proof (cases e)
  case (Start m t)
  then show ?thesis using assms by (simp add: is_Start_def)
next
  case Stop
  then show ?thesis using assms quiet_stop by auto
next
  case (Success m)
  then show ?thesis using assms quiet_stop[of s] by (auto simp: quiet_def)
next
  case (Error m)
  then show ?thesis using assms quiet_stop[of s] by (auto simp: quiet_def)
next
  case (Log m)
  then show ?thesis using assms quiet_stop[of s] by (auto simp: quiet_def)
next
  case (Readable b)
  then show ?thesis using assms by (auto simp: readable_def quiet_def)
next
  case (Tick h)
  then show ?thesis using assms by (simp add: quiet_def tick_disabled)
next
  case (Expire k)
  then have "r = stop (s\<lparr>sleeps := take k (sleeps s) @ drop (Suc k) (sleeps s)\<rparr>)"
    using assms expire_eq by simp
  moreover have "quiet (s\<lparr>sleeps := take k (sleeps s) @ drop (Suc k) (sleeps s)\<rparr>)"
    using assms(1) by (simp add: quiet_def)
  ultimately show ?thesis using Expire quiet_stop by simp
qed

lemma quiet_run:
  "quiet s \<Longrightarrow> list_all (\<lambda>e. \<not> is_Start e) es \<Longrightarrow> run ch s es = Some s' \<Longrightarrow>
   quiet s' \<and> (\<forall>h. Tick h \<notin> set es)"
proof (induction es arbitrary: s)
  case Nil
  then show ?case by simp
next
  case (Cons e es)
  from Cons.prems(3) obtain r where s1: "step ch s e = Some r" and r: "run ch (state_of r) es = Some s'"
    by (auto split: option.splits)
  have q: "quiet (state_of r) \<and> (\<forall>h. e \<noteq> Tick h)"
    using quiet_step[OF Cons.prems(1) _ s1] Cons.prems(2) by simp
  have "quiet s' \<and> (\<forall>h. Tick h \<notin> set es)"
    using Cons.IH[OF _ _ r] q Cons.prems(2) by simp
  then show ?case using q by auto
qed

subsection \<open>Stopping twice\<close>

lemma lit_12: "lit ''12'' = [49, 50]"
  by (simp add: lit_def)

lemma rows_12: "rows (cursor_position (Some reply_12_1)) = Num 12"
proof -
  have d: "list_all is_digit [49, 50]" by (simp add: is_digit_def)
  have v: "radix_val 10 [49, 50] = 12" by (simp add: radix_val_def digit_val_def is_digit_def)
  have "toNumber [49, 50] = Num (of_int (radix_val 10 [49, 50]))"
    using toNumber_digits_exact[OF _ d] v by simp
  then show ?thesis using rows_reply[of "[49, 50]" "lit ''1''"] d
    by (simp add: reply_12_1_def lit_12 v)
qed

lemma progress_eq:
  "progress msg None = \<lparr>message = msg, autoStopTimer = Num 0, rowNumber = None, id' = None,
     out = [StdoutWrite [10], SetEncoding (lit ''utf8''), SetRawMode True, Resume,
            StdoutWrite (27 # lit ''[6n'')],
     listeners = [msg], intervals = [], sleeps = [], next_handle = 0\<rparr>"
  by (simp add: progress_def blank_def start_def stop_def emit_def Let_def truthy_num_def)

lemma progress_500_eq:
  "progress msg (Some (Num 500)) = \<lparr>message = msg, autoStopTimer = Num 500, rowNumber = None,
     id' = None,
     out = [StdoutWrite [10], SetEncoding (lit ''utf8''), SetRawMode True, Resume,
            StdoutWrite (27 # lit ''[6n'')],
     listeners = [msg], intervals = [], sleeps = [Num 500], next_handle = 0\<rparr>"
  by (simp add: progress_def blank_def start_def stop_def emit_def Let_def truthy_num_def)

lemma animating_eq:
  "animating = \<lparr>message = lit ''Loading...'', autoStopTimer = Num 0, rowNumber = Some (Num 12),
     id' = Some 0,
     out = [StdoutWrite [10], SetEncoding (lit ''utf8''), SetRawMode True, Resume,
            StdoutWrite (27 # lit ''[6n''), SetRawMode False],
     listeners = [], intervals = [(0, (Num 0, lit ''Loading...''))], sleeps = [],
     next_handle = Suc 0\<rparr>"
  by (simp add: animating_def progress_eq readable_def on_readable_def emit_def Let_def rows_12)

lemma toNumber_abc: "toNumber [97, 98, 99] = NaN"
  by (simp add: toNumber_def trim_def is_str_white_space_def is_white_space_def
      is_line_terminator_def non_decimal_def unsigned_decimal_def lit_Infinity is_digit_def Let_def)

lemma rows_abc: "rows (cursor_position (Some [27, 91, 97, 98, 99, 82])) = NaN"
proof -
  have j: "JSON_stringify (Some [27, 91, 97, 98, 99, 82])
      = [34, 92, 117, 48, 48, 49, 98, 91, 97, 98, 99, 82, 34]"
    by (simp add: JSON_stringify_def quote_char_def unicode_escape_def hex_digit_def)
  have e: "exec_bracket [34, 92, 117, 48, 48, 49, 98, 91, 97, 98, 99, 82, 34]
      = Some [91, 97, 98, 99, 82, 34]"
    by (simp add: exec_bracket_def is_dot_def is_line_terminator_def)
  show ?thesis
    by (simp add: cursor_position_def Let_def j e piece_or_zero_def toNumber_abc)
qed

lemma animating_NaN_eq:
  "animating_NaN = \<lparr>message = lit ''Loading...'', autoStopTimer = Num 0, rowNumber = Some NaN,
     id' = Some 0,
     out = [StdoutWrite [10], SetEncoding (lit ''utf8''), SetRawMode True, Resume,
            StdoutWrite (27 # lit ''[6n''), SetRawMode False],
     listeners = [], intervals = [(0, (Num 0, lit ''Loading...''))], sleeps = [],
     next_handle = Suc 0\<rparr>"
proof -
  have "[27, 91] @ lit ''abcR'' = [27, 91, 97, 98, 99, 82]" by (simp add: lit_def)
  then show ?thesis
    by (simp add: animating_NaN_def progress_eq readable_def on_readable_def emit_def Let_def rows_abc)
qed

lemmas session_ops = start_def stop_def cursorTo_def emit_def clearInterval_def readable_def
  on_readable_def tick_def expire_def success_def error_def log'_def Let_def truthy_num_def

text \<open>
  Claim C1 says that \<open>stop()\<close> with no animation running does nothing to the terminal, in
  particular a second \<open>stop()\<close> right after a first. The code guards \<open>stop\<close> with
  \<open>if (!id) return\<close> but never resets \<open>id\<close>: once a timer has existed, every later
  \<open>stop()\<close> moves the cursor and clears the line again. Here the session of
  \<open>progress("Loading...")\<close> has read the reply \<open>ESC[12;1R\<close>; after the first \<open>stop()\<close> no
  timer is active, and the second \<open>stop()\<close> still calls \<open>cursorTo(0, 12)\<close> and
  \<open>clearLine(0)\<close>. The same happens to the automatic stop of
  \<open>progress("Loading...", 500)\<close> when \<open>success("done")\<close> has already stopped the
  animation: the expiry clears the row on which the success line was written.
\<close>

theorem stop_after_stop_clears_again:
  "intervals (state_of (stop animating)) = [] \<and>
   out (state_of (stop (state_of (stop animating))))
     = out (state_of (stop animating)) @ [CursorTo 0 (Some (Num 12)), ClearLine 0] \<and>
   stop (state_of (stop animating)) =
     Returned ((state_of (stop animating))
       \<lparr>out := out (state_of (stop animating)) @ [CursorTo 0 (Some (Num 12)), ClearLine 0]\<rparr>) \<and>
   written (run plain (progress (lit ''Loading...'') (Some (Num 500)))
      [Readable (Some reply_12_1), Success (lit ''done''), Expire 0])
     = out (progress (lit ''Loading...'') (Some (Num 500))) @
       [SetRawMode False, CursorTo 0 (Some (Num 12)), ClearLine 0,
        StdoutWrite ([9989, 32] @ lit ''done'' @ [10]),
        CursorTo 0 (Some (Num 12)), ClearLine 0]"
  by (simp add: animating_eq written_def progress_500_eq session_ops plain_def rows_12)

subsection \<open>A pending query outlives a terminating call\<close>

lemma fresh_blank: "fresh_handles (blank msg a)"
  by (simp add: fresh_handles_def blank_def)

lemma fresh_start: "fresh_handles s \<Longrightarrow> fresh_handles (state_of (start s m t))"
  using fresh_stop[of s] by (simp add: fresh_handles_def)

lemma fresh_terminating:
  assumes "fresh_handles s"
  shows "fresh_handles (state_of (stop s))" "fresh_handles (state_of (success ch m s))"
    "fresh_handles (state_of (error ch m s))" "fresh_handles (state_of (log' m s))"
  using fresh_stop[OF assms] by (simp_all add: fresh_handles_def)

lemma fresh_tick: "fresh_handles s \<Longrightarrow> tick ch h s = Some r \<Longrightarrow> fresh_handles (state_of r)"
proof -
  assume f: "fresh_handles s" and t: "tick ch h s = Some r"
  have "list_all (\<lambda>k. k < next_handle s) (map fst (intervals s))"
    using f by (simp add: fresh_handles_def list_all_iff)
  then have "list_all (\<lambda>k. k < next_handle (state_of r)) (map fst (intervals (state_of r)))"
    using tick_fields[OF t] by simp
  then show ?thesis by (simp add: fresh_handles_def list_all_iff)
qed

lemma fresh_step: "fresh_handles s \<Longrightarrow> step ch s e = Some r \<Longrightarrow> fresh_handles (state_of r)"
proof (cases e)
  case (Readable b)
  assume "fresh_handles s" "step ch s e = Some r"
  then show ?thesis using Readable fresh_run_listeners[of "s\<lparr>listeners := []\<rparr>" "listeners s" b]
    by (auto simp: readable_def fresh_handles_def)
next
  case (Tick h)
  assume "fresh_handles s" "step ch s e = Some r"
  then show ?thesis using Tick fresh_tick by auto
next
  case (Expire k)
  assume f: "fresh_handles s" and "step ch s e = Some r"
  then have "r = stop (s\<lparr>sleeps := take k (sleeps s) @ drop (Suc k) (sleeps s)\<rparr>)"
    using Expire expire_eq by simp
  moreover have "fresh_handles (s\<lparr>sleeps := take k (sleeps s) @ drop (Suc k) (sleeps s)\<rparr>)"
    using f by (simp add: fresh_handles_def)
  ultimately show ?thesis using fresh_stop by simp
qed (auto simp: fresh_start fresh_terminating)

lemma fresh_run: "fresh_handles s \<Longrightarrow> run ch s es = Some s' \<Longrightarrow> fresh_handles s'"
  by (induction es arbitrary: s) (auto split: option.splits dest: fresh_step)

lemma fresh_progress: "fresh_handles (progress msg t)"
  unfolding progress_def Let_def by (rule fresh_start) (rule fresh_blank)

lemma start_Returned_D:
  assumes "start s m t = Returned s1"
  shows "(id' s = None \<or> rowNumber s \<noteq> Some NaN) \<and> s1 = state_of (start s m t)"
proof (cases "stop s")
  case (Thrown x)
  then have "start s m t = Thrown x" by (rule start_thrown)
  then show ?thesis using assms by simp
next
  case (Returned x)
  then have "id' s = None \<or> rowNumber s \<noteq> Some NaN" using stop_cases[of s] by auto
  then show ?thesis using assms by simp
qed

lemma terminating_returns:
  assumes "id' s = None \<or> rowNumber s \<noteq> Some NaN"
  shows "stop s = Returned (state_of (stop s))" "success ch m s = Returned (state_of (success ch m s))"
    "error ch m s = Returned (state_of (error ch m s))" "log' m s = Returned (state_of (log' m s))"
proof -
  show s: "stop s = Returned (state_of (stop s))" using assms stop_cases[of s] by auto
  obtain x where x: "stop s = Returned x" using s by auto
  show "success ch m s = Returned (state_of (success ch m s))"
    "error ch m s = Returned (state_of (error ch m s))" "log' m s = Returned (state_of (log' m s))"
    by (simp_all add: success_def error_def log'_def x Let_def)
qed

text \<open>
  Claim C9: a call of \<open>stop\<close>, \<open>success\<close>, \<open>error\<close> or \<open>log\<close> made after \<open>start\<close> and
  before the reply of the terminal has been read returns without cancelling the pending
  one-shot \<open>readable\<close> listener; when the reply arrives, the interval timer is created all
  the same, with the counter at 0 and the message of that \<open>start\<close>, and it ticks: its
  callback runs and, unless the row just captured is \<open>NaN\<close> (then \<open>cursorTo\<close> raises),
  draws the first frame with that message. So the spinner starts animating after the
  terminating call has completed. The session \<open>s0\<close> in which \<open>start\<close> is called is any
  session with fresh timer handles, as every session that \<open>progress\<close> and the events lead
  to is.
\<close>

theorem pending_query_survives_terminating_call:
  assumes "fresh_handles s0"
    and "start s0 msg t = Returned s1"
    and "r = stop s1 \<or> r = success ch m s1 \<or> r = error ch m s1 \<or> r = log' m s1"
  shows "\<exists>s2. r = Returned s2 \<and> listeners s2 = listeners s0 @ [msg] \<and>
    (\<exists>h. id' (readable b s2) = Some h \<and>
       map_of (intervals (readable b s2)) h = Some (Num 0, msg) \<and>
       (\<exists>r'. tick ch h (readable b s2) = Some r') \<and>
       (rowNumber (readable b s2) \<noteq> Some NaN \<longrightarrow>
          (\<exists>s3. tick ch h (readable b s2) = Some (Returned s3) \<and>
             out s3 = out (readable b s2) @ [CursorTo 0 (rowNumber (readable b s2)), ClearLine 0,
                StdoutWrite (cyan ch (frames ! 0) @ [32] @ yellow ch msg)])))"
proof -
  from start_Returned_D[OF assms(2)]
  have ok0: "id' s0 = None \<or> rowNumber s0 \<noteq> Some NaN" and s1: "s1 = state_of (start s0 msg t)"
    by simp_all
  have l1: "listeners s1 = listeners s0 @ [msg]" using ok0 by (auto simp: s1 start_listeners)
  have f1: "fresh_handles s1" unfolding s1 using assms(1) by (rule fresh_start)
  have ok1: "id' s1 = None \<or> rowNumber s1 \<noteq> Some NaN" using ok0 by (simp add: s1)
  define s2 where "s2 = state_of r"
  have ret: "r = Returned s2"
    using assms(3) terminating_returns[OF ok1] by (auto simp: s2_def)
  have l2: "listeners s2 = listeners s0 @ [msg]" using assms(3) l1 by (auto simp: s2_def)
  have f2: "fresh_handles s2" using assms(3) fresh_terminating[OF f1] by (auto simp: s2_def)
  from readable_pending[OF f2 l2, of b] obtain h where h: "id' (readable b s2) = Some h"
    and c: "map_of (intervals (readable b s2)) h = Some (Num 0, msg)" by blast
  have e: "\<exists>r'. tick ch h (readable b s2) = Some r'" using c by (rule tick_enabled)
  have d: "\<exists>s3. tick ch h (readable b s2) = Some (Returned s3) \<and>
      out s3 = out (readable b s2) @ [CursorTo 0 (rowNumber (readable b s2)), ClearLine 0,
         StdoutWrite (cyan ch (frames ! 0) @ [32] @ yellow ch msg)]"
    if "rowNumber (readable b s2) \<noteq> Some NaN"
    using tick_general[OF c that, of ch] by (auto simp: frame_at_0)
  show ?thesis using ret l2 h c e d by blast
qed

theorem pending_query_survives_terminating_call_witness:
  "fresh_handles (blank (lit ''Loading...'') (Num 0)) \<and>
   start (blank (lit ''Loading...'') (Num 0)) (lit ''Loading...'') (Num 0)
     = Returned (progress (lit ''Loading...'') None) \<and>
   (\<exists>s2. success plain (lit ''done'') (progress (lit ''Loading...'') None) = Returned s2 \<and>
      listeners s2 = [lit ''Loading...''] \<and>
      rowNumber (readable (Some reply_12_1) s2) \<noteq> Some NaN \<and>
      (\<exists>h s3. id' (readable (Some reply_12_1) s2) = Some h \<and>
         tick plain h (readable (Some reply_12_1) s2) = Some (Returned s3) \<and>
         last (out s3) = StdoutWrite (frames ! 0 @ [32] @ lit ''Loading...'')))"
proof -
  have f: "fresh_handles (blank (lit ''Loading...'') (Num 0))" by (rule fresh_blank)
  have st: "start (blank (lit ''Loading...'') (Num 0)) (lit ''Loading...'') (Num 0)
     = Returned (progress (lit ''Loading...'') None)"
    by (simp add: progress_def blank_def start_def stop_def Let_def)
  have op: "success plain (lit ''done'') (progress (lit ''Loading...'') None)
      = stop (progress (lit ''Loading...'') None)
      \<or> success plain (lit ''done'') (progress (lit ''Loading...'') None)
      = success plain (lit ''done'') (progress (lit ''Loading...'') None)
      \<or> success plain (lit ''done'') (progress (lit ''Loading...'') None)
      = error plain (lit ''done'') (progress (lit ''Loading...'') None)
      \<or> success plain (lit ''done'') (progress (lit ''Loading...'') None)
      = log' (lit ''done'') (progress (lit ''Loading...'') None)" by simp
  from pending_query_survives_terminating_call[OF f st op, of "Some reply_12_1"]
  obtain s2 h where a: "success plain (lit ''done'') (progress (lit ''Loading...'') None) = Returned s2"
    and l: "listeners s2 = listeners (blank (lit ''Loading...'') (Num 0)) @ [lit ''Loading...'']"
    and i: "id' (readable (Some reply_12_1) s2) = Some h"
    and d: "rowNumber (readable (Some reply_12_1) s2) \<noteq> Some NaN \<longrightarrow>
          (\<exists>s3. tick plain h (readable (Some reply_12_1) s2) = Some (Returned s3) \<and>
             out s3 = out (readable (Some reply_12_1) s2) @
               [CursorTo 0 (rowNumber (readable (Some reply_12_1) s2)), ClearLine 0,
                StdoutWrite (cyan plain (frames ! 0) @ [32] @ yellow plain (lit ''Loading...''))])"
    by blast
  have l': "listeners s2 = [lit ''Loading...'']" using l by (simp add: blank_def)
  have row: "rowNumber (readable (Some reply_12_1) s2) \<noteq> Some NaN"
    by (simp add: readable_def l' rows_12)
  from d row obtain s3 where t: "tick plain h (readable (Some reply_12_1) s2) = Some (Returned s3)"
    and o: "out s3 = out (readable (Some reply_12_1) s2) @
               [CursorTo 0 (rowNumber (readable (Some reply_12_1) s2)), ClearLine 0,
                StdoutWrite (cyan plain (frames ! 0) @ [32] @ yellow plain (lit ''Loading...''))]"
    by blast
  have "last (out s3) = StdoutWrite (frames ! 0 @ [32] @ lit ''Loading...'')"
    by (simp add: o plain_def)
  then show ?thesis using f st a l' row i t by blast
qed

subsection \<open>log, success and error\<close>

lemma lit_raw: "lit ''raw'' = [114, 97, 119]"
  by (simp add: lit_def)

lemma stop_returned_out:
  assumes "rowNumber s \<noteq> Some NaN"
  shows "\<exists>s1. stop s = Returned s1 \<and>
     out s1 = out s @ (case id' s of None \<Rightarrow> [] | Some h \<Rightarrow> [CursorTo 0 (rowNumber s), ClearLine 0])"
proof -
  have "stop s = Returned (state_of (stop s))" using assms by (rule stop_returns)
  moreover have "out (state_of (stop s)) =
      out s @ (case id' s of None \<Rightarrow> [] | Some h \<Rightarrow> [CursorTo 0 (rowNumber s), ClearLine 0])"
    using assms by (simp add: stop_out split: option.splits)
  ultimately show ?thesis by blast
qed

text \<open>
  Claim C7 says that \<open>log(m)\<close> is \<open>stop()\<close> followed by writing \<open>m\<close> as it is, and that
  \<open>log("raw")\<close> emits exactly the four characters \<open>raw\<close> after the line-clear. What is
  written is \<open>raw\<close> itself, which has three characters, not four. And when the captured
  row is \<open>NaN\<close> (the reply \<open>ESC[abcR\<close> was read), the \<open>cursorTo\<close> of \<open>stop()\<close> raises: the
  line is not cleared and \<open>raw\<close> is not written at all.
\<close>

theorem log_raw_writes_three_characters:
  "log' (lit ''raw'') animating
     = Returned ((state_of (stop animating))
         \<lparr>out := out (state_of (stop animating)) @ [StdoutWrite (lit ''raw'')]\<rparr>) \<and>
   length (lit ''raw'') = 3 \<and> length (lit ''raw'') \<noteq> 4 \<and>
   log' (lit ''raw'') animating_NaN
     = Thrown (animating_NaN\<lparr>out := out animating_NaN @ [CursorTo 0 (Some NaN)], intervals := []\<rparr>)"
  by (simp add: animating_eq animating_NaN_eq session_ops lit_def)

text \<open>
  Claim C7, amended: for every message \<open>m\<close> and every session whose captured row is not
  \<open>NaN\<close>, \<open>log(m)\<close> returns after doing what \<open>stop()\<close> does (nothing when no timer has
  existed yet, else moving the cursor to the owned row and clearing the line) followed by
  one write of \<open>m\<close> itself, with no indicator, no style and no newline added; \<open>log("raw")\<close>
  writes exactly the three characters \<open>r\<close>, \<open>a\<close>, \<open>w\<close>.
\<close>

theorem log_is_stop_then_verbatim_write:
  assumes "rowNumber s \<noteq> Some NaN"
  shows "\<exists>s1. stop s = Returned s1 \<and>
     out s1 = out s @ (case id' s of None \<Rightarrow> [] | Some h \<Rightarrow> [CursorTo 0 (rowNumber s), ClearLine 0]) \<and>
     log' m s = Returned (s1\<lparr>out := out s1 @ [StdoutWrite m]\<rparr>) \<and>
     log' (lit ''raw'') s = Returned (s1\<lparr>out := out s1 @ [StdoutWrite [114, 97, 119]]\<rparr>)"
proof -
  from stop_returned_out[OF assms] obtain s1 where s1: "stop s = Returned s1"
    and o: "out s1 = out s @ (case id' s of None \<Rightarrow> [] | Some h \<Rightarrow> [CursorTo 0 (rowNumber s), ClearLine 0])"
    by blast
  have "log' m s = Returned (s1\<lparr>out := out s1 @ [StdoutWrite m]\<rparr>)" for m
    by (simp add: log'_def s1 emit_def)
  then show ?thesis using s1 o by (simp add: lit_raw)
qed

theorem log_is_stop_then_verbatim_write_witness:
  "rowNumber animating \<noteq> Some NaN \<and>
   (\<exists>s1. stop animating = Returned s1 \<and>
      out s1 = out animating @ [CursorTo 0 (Some (Num 12)), ClearLine 0] \<and>
      log' (lit ''raw'') animating = Returned (s1\<lparr>out := out s1 @ [StdoutWrite [114, 97, 119]]\<rparr>))"
proof -
  have r: "rowNumber animating \<noteq> Some NaN" by (simp add: animating_eq)
  have i: "id' animating = Some 0" "rowNumber animating = Some (Num 12)" by (simp_all add: animating_eq)
  from log_is_stop_then_verbatim_write[OF r, of "lit ''raw''"]
  have "\<exists>s1. stop animating = Returned s1 \<and>
      out s1 = out animating @ [CursorTo 0 (Some (Num 12)), ClearLine 0] \<and>
      log' (lit ''raw'') animating = Returned (s1\<lparr>out := out s1 @ [StdoutWrite [114, 97, 119]]\<rparr>)"
    by (simp add: i) blast
  then show ?thesis using r by simp
qed

text \<open>
  Claim C6 says that \<open>success(m)\<close> is \<open>stop()\<close> followed by the decorated message and a
  newline, and that no spinner frame is written after it. While the cursor query of
  \<open>start\<close> is still pending the second part fails: \<open>success("done")\<close> right after
  \<open>progress("Loading...")\<close>, then the reply \<open>ESC[12;1R\<close>, then a tick of the timer that
  the reply creates, write a frame after the success line. And when the captured row is
  \<open>NaN\<close> (the reply \<open>ESC[abcR\<close> was read), the \<open>cursorTo\<close> of \<open>stop()\<close> raises and the
  success line is not written.
\<close>

theorem frame_after_success_while_query_pending:
  "written (run plain (progress (lit ''Loading...'') None)
      [Success (lit ''done''), Readable (Some reply_12_1), Tick 0])
   = [StdoutWrite [10], SetEncoding (lit ''utf8''), SetRawMode True, Resume,
      StdoutWrite (27 # lit ''[6n''),
      StdoutWrite ([9989, 32] @ lit ''done'' @ [10]),
      SetRawMode False,
      CursorTo 0 (Some (Num 12)), ClearLine 0,
      StdoutWrite ([10251, 32] @ lit ''Loading...'')] \<and>
   success plain (lit ''done'') animating_NaN
     = Thrown (animating_NaN\<lparr>out := out animating_NaN @ [CursorTo 0 (Some NaN)], intervals := []\<rparr>)"
  by (simp add: written_def progress_eq animating_NaN_eq session_ops plain_def rows_12 frame_at_0
      frames_def)

text \<open>
  Claim C6, amended: for every message \<open>m\<close> and every session whose captured row is not
  \<open>NaN\<close>, \<open>success(m)\<close> returns after doing what \<open>stop()\<close> does (nothing when no timer has
  existed yet, else moving the cursor to the owned row and clearing the line) followed by
  one write of the styled text "success glyph, space, \<open>m\<close>" and a newline, and \<open>error(m)\<close>
  the same with the failure glyph. For every session with no cursor query pending and at
  most the timer that \<open>id\<close> names, no redraw tick can happen after either call, and no
  timer is active, for as long as \<open>start\<close> is not called again.
\<close>

theorem success_error_stop_then_write:
  "(rowNumber s \<noteq> Some NaN \<longrightarrow>
      (\<exists>s1. stop s = Returned s1 \<and>
         out s1 = out s @ (case id' s of None \<Rightarrow> [] | Some h \<Rightarrow> [CursorTo 0 (rowNumber s), ClearLine 0]) \<and>
         success ch m s = Returned (s1\<lparr>out := out s1 @ [StdoutWrite (green ch ([9989, 32] @ m) @ [10])]\<rparr>) \<and>
         error ch m s = Returned (s1\<lparr>out := out s1 @ [StdoutWrite (red ch ([9940, 32] @ m) @ [10])]\<rparr>))) \<and>
   (calm s \<and> listeners s = [] \<longrightarrow>
      (\<forall>es s'. list_all (\<lambda>e. \<not> is_Start e) es \<and>
           (run ch (state_of (success ch m s)) es = Some s' \<or>
            run ch (state_of (error ch m s)) es = Some s')
         \<longrightarrow> (\<forall>h. Tick h \<notin> set es) \<and> intervals s' = []))"
proof -
  have a: "\<exists>s1. stop s = Returned s1 \<and>
         out s1 = out s @ (case id' s of None \<Rightarrow> [] | Some h \<Rightarrow> [CursorTo 0 (rowNumber s), ClearLine 0]) \<and>
         success ch m s = Returned (s1\<lparr>out := out s1 @ [StdoutWrite (green ch ([9989, 32] @ m) @ [10])]\<rparr>) \<and>
         error ch m s = Returned (s1\<lparr>out := out s1 @ [StdoutWrite (red ch ([9940, 32] @ m) @ [10])]\<rparr>)"
    if r: "rowNumber s \<noteq> Some NaN"
  proof -
    from stop_returned_out[OF r] obtain s1 where s1: "stop s = Returned s1"
      and o: "out s1 = out s @ (case id' s of None \<Rightarrow> [] | Some h \<Rightarrow> [CursorTo 0 (rowNumber s), ClearLine 0])"
      by blast
    show ?thesis using s1 o by (simp add: success_def error_def Let_def emit_def)
  qed
  have b: "(\<forall>h. Tick h \<notin> set es) \<and> intervals s' = []"
    if c: "calm s" "listeners s = []" and es: "list_all (\<lambda>e. \<not> is_Start e) es"
      and r: "run ch (state_of (success ch m s)) es = Some s' \<or>
              run ch (state_of (error ch m s)) es = Some s'"
    for es s'
  proof -
    have q: "quiet (state_of (stop s))" using c by (rule calm_stop_quiet)
    have "quiet (state_of (success ch m s))" "quiet (state_of (error ch m s))"
      using q c(2) by (simp_all add: quiet_def)
    then have "quiet s' \<and> (\<forall>h. Tick h \<notin> set es)"
      using r quiet_run[OF _ es] by blast
    then show ?thesis by (simp add: quiet_def)
  qed
  show ?thesis using a b by blast
qed

theorem success_error_stop_then_write_witness:
  "rowNumber animating \<noteq> Some NaN \<and> calm animating \<and> listeners animating = [] \<and>
   list_all (\<lambda>e. \<not> is_Start e) [Readable (Some reply_12_1), Stop] \<and>
   (\<exists>s1. stop animating = Returned s1 \<and>
      success plain (lit ''done'') animating
        = Returned (s1\<lparr>out := out s1 @ [StdoutWrite ([9989, 32] @ lit ''done'' @ [10])]\<rparr>)) \<and>
   (\<exists>s'. run plain (state_of (success plain (lit ''done'') animating))
            [Readable (Some reply_12_1), Stop] = Some s' \<and>
      intervals s' = []) \<and>
   Tick 0 \<notin> set [Readable (Some reply_12_1), Stop]"
proof -
  have n: "rowNumber animating \<noteq> Some NaN" by (simp add: animating_eq)
  have c: "calm animating \<and> listeners animating = []"
    by (simp add: animating_eq calm_def)
  have l: "list_all (\<lambda>e. \<not> is_Start e) [Readable (Some reply_12_1), Stop]"
    by (simp add: is_Start_def)
  obtain s' where r: "run plain (state_of (success plain (lit ''done'') animating))
      [Readable (Some reply_12_1), Stop] = Some s'"
    by simp
  note t = success_error_stop_then_write[of animating plain "lit ''done''"]
  have i: "intervals s' = []" using t c l r by blast
  from t n obtain s1 where "stop animating = Returned s1"
    "success plain (lit ''done'') animating
      = Returned (s1\<lparr>out := out s1 @ [StdoutWrite (green plain ([9989, 32] @ lit ''done'') @ [10])]\<rparr>)"
    by blast
  then have "\<exists>s1. stop animating = Returned s1 \<and>
      success plain (lit ''done'') animating
        = Returned (s1\<lparr>out := out s1 @ [StdoutWrite ([9989, 32] @ lit ''done'' @ [10])]\<rparr>)"
    by (simp add: plain_def)
  then show ?thesis using n c l r i by simp
qed

subsection \<open>The automatic stop, and one timer at a time\<close>

lemma run_ticks_animating:
  "calm s \<Longrightarrow> listeners s = [] \<Longrightarrow> id' s \<noteq> None \<Longrightarrow> run ch s (map Tick hs) = Some s' \<Longrightarrow>
   calm s' \<and> listeners s' = [] \<and> id' s' \<noteq> None \<and> sleeps s' = sleeps s \<and> rowNumber s' = rowNumber s"
proof (induction hs arbitrary: s)
  case Nil
  then show ?case by simp
next
  case (Cons h hs)
  from Cons.prems(4) obtain r where t: "tick ch h s = Some r"
    and r: "run ch (state_of r) (map Tick hs) = Some s'"
    by (auto split: option.splits)
  have "calm (state_of r)" using Cons.prems(1) t by (rule calm_tick)
  moreover have "listeners (state_of r) = []" "id' (state_of r) \<noteq> None"
    "sleeps (state_of r) = sleeps s" "rowNumber (state_of r) = rowNumber s"
    using tick_fields[OF t] Cons.prems by simp_all
  ultimately show ?case using Cons.IH[OF _ _ _ r] by simp
qed

text \<open>
  Claim C4 says that after every \<open>start(message, timeout)\<close> with a positive timeout and
  no manual terminating call, the expiry of the timeout clears the spinner line exactly
  once and no redraw tick happens afterwards. When the timeout expires before the reply of
  the terminal has been read, \<open>stop()\<close> finds no timer and clears nothing; the reply then
  creates the timer, which ticks with nothing left to stop it. And when the reply read is
  \<open>ESC[abcR\<close>, the captured row is \<open>NaN\<close>: at the expiry the \<open>cursorTo\<close> of \<open>stop()\<close>
  raises and the line is not cleared.
\<close>

theorem expiry_before_reply_leaves_spinner_running:
  "written (run plain (progress (lit ''Loading...'') (Some (Num 500))) [Expire 0])
     = out (progress (lit ''Loading...'') (Some (Num 500))) \<and>
   written (run plain (progress (lit ''Loading...'') (Some (Num 500)))
      [Expire 0, Readable (Some reply_12_1), Tick 0])
     = out (progress (lit ''Loading...'') (Some (Num 500))) @
       [SetRawMode False, CursorTo 0 (Some (Num 12)), ClearLine 0,
        StdoutWrite ([10251, 32] @ lit ''Loading...'')] \<and>
   expire 0 (readable (Some [27, 91, 97, 98, 99, 82]) (progress (lit ''Loading...'') (Some (Num 500))))
     = Some (Thrown \<lparr>message = lit ''Loading...'', autoStopTimer = Num 500, rowNumber = Some NaN,
         id' = Some 0,
         out = out (progress (lit ''Loading...'') (Some (Num 500))) @
               [SetRawMode False, CursorTo 0 (Some NaN)],
         listeners = [], intervals = [], sleeps = [], next_handle = Suc 0\<rparr>)"
  by (simp add: written_def progress_500_eq session_ops plain_def rows_12 rows_abc frame_at_0
      frames_def)

text \<open>
  Claim C4, amended: for every call of \<open>start\<close> with a positive timeout, made while the
  session has no pending cursor query and at most the timer that \<open>id\<close> names, if the reply
  of the terminal is read before the timeout expires and only redraw ticks happen in
  between, then the expiry runs \<open>stop()\<close>, which cancels the timer: no timer stays active,
  and no redraw tick can happen afterwards for as long as \<open>start\<close> is not called again.
  When the row captured from the reply is not \<open>NaN\<close>, that \<open>stop()\<close> returns after moving
  the cursor to the owned row and clearing the line exactly once.
\<close>

theorem auto_stop_after_reply_clears_once:
  assumes "calm s0" and "listeners s0 = []" and "0 < q"
    and "start s0 msg (Num q) = Returned s1"
    and "run ch s1 (Readable b # map Tick hs) = Some s2"
  shows "\<exists>r. expire (length (sleeps s0)) s2 = Some r \<and>
      intervals (state_of r) = [] \<and>
      (\<forall>es s4. list_all (\<lambda>e. \<not> is_Start e) es \<and> run ch (state_of r) es = Some s4
         \<longrightarrow> (\<forall>h. Tick h \<notin> set es) \<and> intervals s4 = []) \<and>
      (rows (cursor_position b) \<noteq> NaN \<longrightarrow>
         (\<exists>s3. r = Returned s3 \<and> out s3 = out s2 @ [CursorTo 0 (rowNumber s2), ClearLine 0]))"
proof -
  from start_Returned_D[OF assms(4)]
  have ok0: "id' s0 = None \<or> rowNumber s0 \<noteq> Some NaN" and s1: "s1 = state_of (start s0 msg (Num q))"
    by simp_all
  have l1: "listeners s1 = [msg]" using ok0 assms(2) by (auto simp: s1 start_listeners)
  have c1: "calm s1" unfolding s1 using assms(1,2) by (rule calm_start)
  have sl1: "sleeps s1 = sleeps s0 @ [Num q]"
    using ok0 assms(3) by (auto simp: s1 start_sleeps truthy_num_def)
  define s1' where "s1' = readable b s1"
  have r: "run ch s1' (map Tick hs) = Some s2" using assms(5) by (simp add: s1'_def)
  have c1': "calm s1'" unfolding s1'_def using c1 by (rule calm_readable)
  have l1': "listeners s1' = []" and i1: "id' s1' \<noteq> None"
    and row1: "rowNumber s1' = Some (rows (cursor_position b))"
    and sl1': "sleeps s1' = sleeps s0 @ [Num q]"
    by (simp_all add: s1'_def readable_def l1 sl1)
  from run_ticks_animating[OF c1' l1' i1 r]
  have c2: "calm s2" and l2: "listeners s2 = []" and i2: "id' s2 \<noteq> None"
    and sl2: "sleeps s2 = sleeps s0 @ [Num q]"
    and row2: "rowNumber s2 = Some (rows (cursor_position b))" by (simp_all add: sl1' row1)
  define s2' where "s2' = s2\<lparr>sleeps := take (length (sleeps s0)) (sleeps s2) @ drop (Suc (length (sleeps s0))) (sleeps s2)\<rparr>"
  define r' where "r' = stop s2'"
  have e: "expire (length (sleeps s0)) s2 = Some r'"
    by (simp add: expire_def sl2 r'_def s2'_def)
  have c2': "calm s2'" "listeners s2' = []" "id' s2' \<noteq> None" "out s2' = out s2"
    "rowNumber s2' = rowNumber s2"
    using c2 l2 i2 by (simp_all add: s2'_def calm_sleeps_update)
  have q3: "quiet (state_of r')" unfolding r'_def using c2'(1,2) by (rule calm_stop_quiet)
  have after: "(\<forall>h. Tick h \<notin> set es) \<and> intervals s4 = []"
    if "list_all (\<lambda>e. \<not> is_Start e) es" "run ch (state_of r') es = Some s4" for es s4
    using quiet_run[OF q3 that] by (simp add: quiet_def)
  have clear: "\<exists>s3. r' = Returned s3 \<and> out s3 = out s2 @ [CursorTo 0 (rowNumber s2), ClearLine 0]"
    if n: "rows (cursor_position b) \<noteq> NaN"
  proof -
    have "rowNumber s2' \<noteq> Some NaN" using n by (simp add: c2'(5) row2)
    from stop_returned_out[OF this] c2'(3,4,5) show ?thesis by (auto simp: r'_def)
  qed
  show ?thesis using e q3 after clear by (auto simp: quiet_def)
qed

theorem auto_stop_after_reply_clears_once_witness:
  "calm (blank (lit ''Loading...'') (Num 500)) \<and>
   listeners (blank (lit ''Loading...'') (Num 500)) = [] \<and> (0::rat) < 500 \<and>
   start (blank (lit ''Loading...'') (Num 500)) (lit ''Loading...'') (Num 500)
     = Returned (progress (lit ''Loading...'') (Some (Num 500))) \<and>
   rows (cursor_position (Some reply_12_1)) \<noteq> NaN \<and>
   (\<exists>s2. run plain (progress (lit ''Loading...'') (Some (Num 500)))
            (Readable (Some reply_12_1) # map Tick [0]) = Some s2 \<and>
      (\<exists>s3. expire (length (sleeps (blank (lit ''Loading...'') (Num 500)))) s2 = Some (Returned s3) \<and>
         out s3 = out s2 @ [CursorTo 0 (rowNumber s2), ClearLine 0] \<and> intervals s3 = []))"
proof -
  have c: "calm (blank (lit ''Loading...'') (Num 500))"
    "listeners (blank (lit ''Loading...'') (Num 500)) = []"
    by (simp_all add: blank_def calm_def)
  have st: "start (blank (lit ''Loading...'') (Num 500)) (lit ''Loading...'') (Num 500)
     = Returned (progress (lit ''Loading...'') (Some (Num 500)))"
    by (simp add: progress_def blank_def start_def stop_def Let_def)
  obtain s2 where r: "run plain (progress (lit ''Loading...'') (Some (Num 500)))
            (Readable (Some reply_12_1) # map Tick [0]) = Some s2"
    by (simp add: progress_500_eq session_ops)
  have p: "(0::rat) < 500" by simp
  have n: "rows (cursor_position (Some reply_12_1)) \<noteq> NaN" by (simp add: rows_12)
  from auto_stop_after_reply_clears_once[OF c p st r] n
  have "\<exists>s3. expire (length (sleeps (blank (lit ''Loading...'') (Num 500)))) s2 = Some (Returned s3) \<and>
         out s3 = out s2 @ [CursorTo 0 (rowNumber s2), ClearLine 0] \<and> intervals s3 = []"
    by auto
  then show ?thesis using c st r n by auto
qed

lemma disciplined_take: "disciplined ch s es \<Longrightarrow> disciplined ch s (take k es)"
proof (induction es arbitrary: s k)
  case Nil
  then show ?case by simp
next
  case (Cons e es)
  show ?case
  proof (cases k)
    case 0
    then show ?thesis by simp
  next
    case (Suc j)
    then show ?thesis using Cons by (auto split: option.splits)
  qed
qed

lemma disciplined_calm:
  "calm s \<Longrightarrow> disciplined ch s es \<Longrightarrow> \<exists>s'. run ch s es = Some s' \<and> calm s'"
proof (induction es arbitrary: s)
  case Nil
  then show ?case by simp
next
  case (Cons e es)
  from Cons.prems(2) obtain r where s1: "step ch s e = Some r"
    and g: "is_Start e \<Longrightarrow> listeners s = []" and d: "disciplined ch (state_of r) es"
    by (auto split: option.splits if_splits)
  have "calm (state_of r)" using Cons.prems(1) s1 g by (rule calm_step)
  from Cons.IH[OF this d] show ?case by (simp add: s1)
qed

lemma calm_progress: "calm (progress msg t)"
  unfolding progress_def Let_def by (rule calm_start) (simp_all add: calm_def blank_def)

text \<open>
  Claim C5 says that at most one interval timer is active at any instant, whatever the
  sequence of calls, overlapping calls of \<open>start\<close> included. A second \<open>start\<close> issued
  while the cursor query of the first is pending finds no timer to cancel and registers a
  second listener; the reply then runs both listeners and each creates a timer.
\<close>

theorem overlapping_starts_leave_two_timers:
  "active_timers (run plain (progress (lit ''Loading...'') None)
      [Start None None, Readable (Some reply_12_1)])
   = [(0, (Num 0, lit ''Loading...'')), (1, (Num 0, lit ''Loading...''))]"
  by (simp add: active_timers_def progress_eq session_ops)

text \<open>
  Claim C5, amended: for every session created by \<open>progress\<close> and every sequence of calls
  and events in which \<open>start\<close> is never called while a cursor query of the session is
  pending, at most one interval timer is active at every instant.
\<close>

theorem one_timer_when_starts_do_not_overlap:
  assumes "disciplined ch (progress msg t) es"
  shows "\<exists>s. run ch (progress msg t) (take k es) = Some s \<and> length (intervals s) \<le> 1"
  using disciplined_calm[OF calm_progress disciplined_take[OF assms]] calm_length by blast

theorem one_timer_when_starts_do_not_overlap_witness:
  "disciplined plain (progress (lit ''Loading...'') None) [Readable (Some reply_12_1), Tick 0, Start None None] \<and>
   (\<exists>s. run plain (progress (lit ''Loading...'') None)
          (take 3 [Readable (Some reply_12_1), Tick 0, Start None None]) = Some s \<and>
      length (intervals s) \<le> 1)"
proof -
  have d: "disciplined plain (progress (lit ''Loading...'') None) [Readable (Some reply_12_1), Tick 0, Start None None]"
    by (simp add: progress_eq session_ops is_Start_def rows_12)
  show ?thesis
    using one_timer_when_starts_do_not_overlap[OF d, of 3] d by simp
qed

subsection \<open>The frame counter\<close>

lemma run_append:
  "run ch s (xs @ ys) = (case run ch s xs of None \<Rightarrow> None | Some s' \<Rightarrow> run ch s' ys)"
  by (induction xs arbitrary: s) (auto split: option.splits)

lemma js_incr_min:
  "js_incr (Num (of_nat (min n (2 ^ 53)))) = Num (of_nat (min (Suc n) (2 ^ 53)))"
proof (cases "n < 2 ^ 53")
  case True
  then show ?thesis using js_incr_below[of n] by (simp add: min_def)
next
  case False
  then have "min n (2 ^ 53) = 2 ^ 53" "min (Suc n) (2 ^ 53) = 2 ^ 53" by simp_all
  then show ?thesis using js_incr_top by simp
qed

lemma ticks_counter:
  assumes "map_of (intervals s) h = Some (Num 0, m)" and "rowNumber s \<noteq> Some NaN"
  shows "\<exists>s'. run ch s (replicate n (Tick h)) = Some s' \<and> rowNumber s' = rowNumber s \<and>
     map_of (intervals s') h = Some (Num (of_nat (min n (2 ^ 53))), m)"
proof (induction n)
  case 0
  then show ?case using assms by simp
next
  case (Suc n)
  then obtain s' where r: "run ch s (replicate n (Tick h)) = Some s'"
    and w: "rowNumber s' = rowNumber s"
    and c: "map_of (intervals s') h = Some (Num (of_nat (min n (2 ^ 53))), m)" by blast
  have n: "rowNumber s' \<noteq> Some NaN" using w assms(2) by simp
  from tick_general[OF c n, of ch] obtain s'' where t: "tick ch h s' = Some (Returned s'')"
    and c': "map_of (intervals s'') h = Some (js_incr (Num (of_nat (min n (2 ^ 53)))), m)"
    and w': "rowNumber s'' = rowNumber s'" by blast
  have e: "replicate (Suc n) (Tick h) = replicate n (Tick h) @ [Tick h]"
    by (simp add: replicate_append_same)
  have "run ch s (replicate (Suc n) (Tick h)) = Some s''"
    by (simp only: e) (simp add: run_append r t)
  then show ?case using c' w w' by (simp only: js_incr_min) simp
qed

lemma nth_tick_write_min:
  assumes "map_of (intervals s) h = Some (Num 0, m)" and "rowNumber s \<noteq> Some NaN"
  shows "nth_tick_write ch h s n =
     Some (StdoutWrite (cyan ch (frames ! (min n (2 ^ 53) mod 10)) @ [32] @ yellow ch m))"
proof -
  from ticks_counter[OF assms, of ch n] obtain s' where r: "run ch s (replicate n (Tick h)) = Some s'"
    and w: "rowNumber s' = rowNumber s"
    and c: "map_of (intervals s') h = Some (Num (of_nat (min n (2 ^ 53))), m)" by blast
  have n: "rowNumber s' \<noteq> Some NaN" using w assms(2) by simp
  from tick_general[OF c n, of ch] obtain s'' where t: "tick ch h s' = Some (Returned s'')"
    and o: "out s'' = out s' @ [CursorTo 0 (rowNumber s'), ClearLine 0,
        StdoutWrite (cyan ch (frame_at (Num (of_nat (min n (2 ^ 53))))) @ [32] @ yellow ch m)]"
    by blast
  show ?thesis by (simp add: nth_tick_write_def r t o frame_at_nat)
qed

text \<open>
  Claim C8 says that for every tick count \<open>n\<close> the tick number \<open>n\<close> of an animation run
  writes the frame at index \<open>n mod 10\<close>. The counter \<open>i\<close> is a Number: at \<open>2 ^ 53\<close> the
  increment \<open>i++\<close> rounds back to \<open>2 ^ 53\<close>, so the tick number \<open>2 ^ 53 + 1\<close> writes the
  frame at index 2 again, not the one at index \<open>(2 ^ 53 + 1) mod 10 = 3\<close>. And in the
  animation run that the reply \<open>ESC[abcR\<close> starts, the captured row is \<open>NaN\<close>: the
  \<open>cursorTo\<close> of the callback raises, so that the tick number 0 writes no frame and leaves
  the counter at 0.
\<close>

theorem frame_counter_stops_at_2_53:
  "nth_tick_write plain 0 animating 9007199254740993
     = Some (StdoutWrite (frames ! 2 @ [32] @ lit ''Loading...'')) \<and>
   (9007199254740993::nat) mod 10 = 3 \<and> frames ! 2 \<noteq> frames ! 3 \<and>
   tick plain 0 animating_NaN
     = Some (Thrown (animating_NaN\<lparr>out := out animating_NaN @ [CursorTo 0 (Some NaN)]\<rparr>)) \<and>
   nth_tick_write plain 0 animating_NaN 0 = None"
proof -
  have a: "map_of (intervals animating) 0 = Some (Num 0, lit ''Loading...'')"
    and b: "rowNumber animating \<noteq> Some NaN"
    by (simp_all add: animating_eq)
  have t: "tick plain 0 animating_NaN
     = Some (Thrown (animating_NaN\<lparr>out := out animating_NaN @ [CursorTo 0 (Some NaN)]\<rparr>))"
    by (simp add: animating_NaN_eq tick_def cursorTo_def emit_def)
  have n: "nth_tick_write plain 0 animating_NaN 0 = None"
    by (simp add: nth_tick_write_def t)
  from nth_tick_write_min[OF a b, of plain 9007199254740993]
  show ?thesis using t n by (simp add: plain_def frames_def)
qed

text \<open>
  Claim C8, amended: in an animation run whose captured row is not \<open>NaN\<close>, for every tick
  count \<open>n\<close> up to \<open>2 ^ 53\<close>, the tick number \<open>n\<close> (from 0) writes the frame at index
  \<open>n mod 10\<close> of the table of ten frames, followed by a space and the message, and the
  counter is \<open>n\<close> before that tick: it advances by one per tick.
\<close>

theorem nth_tick_writes_nth_frame:
  assumes "map_of (intervals s) h = Some (Num 0, m)" and "n \<le> 2 ^ 53"
    and "rowNumber s \<noteq> Some NaN"
  shows "nth_tick_write ch h s n
       = Some (StdoutWrite (cyan ch (frames ! (n mod length frames)) @ [32] @ yellow ch m)) \<and>
     length frames = 10 \<and>
     (\<exists>s'. run ch s (replicate n (Tick h)) = Some s' \<and>
        map_of (intervals s') h = Some (Num (of_nat n), m))"
proof -
  have m: "min n (2 ^ 53) = n" using assms(2) by simp
  have l: "length frames = 10" by (simp add: frames_def)
  show ?thesis
    using nth_tick_write_min[OF assms(1,3), of ch n] ticks_counter[OF assms(1,3), of ch n]
    by (simp only: m l) blast
qed

theorem nth_tick_writes_nth_frame_witness:
  "map_of (intervals animating) 0 = Some (Num 0, lit ''Loading...'') \<and> (13::nat) \<le> 2 ^ 53 \<and>
   rowNumber animating \<noteq> Some NaN \<and>
   nth_tick_write plain 0 animating 13 = Some (StdoutWrite (frames ! 3 @ [32] @ lit ''Loading...''))"
proof -
  have a: "map_of (intervals animating) 0 = Some (Num 0, lit ''Loading...'')"
    by (simp add: animating_eq)
  have b: "(13::nat) \<le> 2 ^ 53" by simp
  have c: "rowNumber animating \<noteq> Some NaN" by (simp add: animating_eq)
  show ?thesis
    using nth_tick_writes_nth_frame[OF a b c, of plain] a c
    by (simp add: plain_def frames_def)
qed

subsection \<open>The captured row\<close>

lemma readable_single:
  "listeners s = [m] \<Longrightarrow> rowNumber (readable b s) = Some (rows (cursor_position b))"
  by (simp add: readable_def)

lemma readable_row:
  assumes "listeners s \<noteq> []"
  shows "rowNumber (readable b s) = Some (rows (cursor_position b)) \<or>
         rowNumber (readable b s) = Some (rows (cursor_position None))"
proof -
  obtain ms m where l: "listeners s = ms @ [m]"
    using assms by (metis rev_exhaust)
  show ?thesis by (simp add: readable_def l run_listeners_snoc)
qed

lemma lit_big: "lit ''9007199254740993'' = [57, 48, 48, 55, 49, 57, 57, 50, 53, 52, 55, 52, 48, 57, 57, 51]"
  by (simp add: lit_def)

lemma rows_big:
  "rows (cursor_position (Some (cursor_reply (lit ''9007199254740993'') (lit ''1'')))) = Num 9007199254740992"
proof -
  have d: "list_all is_digit (lit ''9007199254740993'')" by (simp add: lit_big is_digit_def)
  have v: "radix_val 10 (lit ''9007199254740993'') = 9007199254740993"
    by (simp add: lit_big radix_val_def digit_val_def is_digit_def)
  have n: "lit ''9007199254740993'' \<noteq> []" by (simp add: lit_big)
  show ?thesis
    by (simp add: rows_reply[OF n d] toNumber_digits[OF n d] v to_double_2p53_1)
qed

text \<open>
  Claim C2 says that the reply \<open>ESC[12;1R\<close> sets the captured row to 12 and, in general,
  that for a reply \<open>ESC[r;cR\<close> with decimal digits \<open>r\<close> the captured row equals the integer
  \<open>r\<close>. The row is a Number, the double nearest to \<open>r\<close>: for \<open>r = 2 ^ 53 + 1\<close> it is
  \<open>2 ^ 53\<close>.
\<close>

theorem reply_row_rounds_to_double:
  "rowNumber (readable (Some (cursor_reply (lit ''9007199254740993'') (lit ''1'')))
      (progress (lit ''Loading...'') None)) = Some (Num 9007199254740992) \<and>
   Num 9007199254740992 \<noteq> Num 9007199254740993"
  by (simp add: readable_single[of _ "lit ''Loading...''"] progress_eq rows_big)

text \<open>
  Claim C2, amended: when one cursor query is pending and the reply \<open>ESC[r;cR\<close> is read,
  \<open>r\<close> a non-empty string of decimal digits, the captured row is the double nearest to the
  integer \<open>r\<close> (ties to even), which is \<open>r\<close> itself whenever \<open>r\<close> is at most \<open>2 ^ 53\<close>; for
  the reply \<open>ESC[12;1R\<close> it is 12.
\<close>

theorem reply_row_is_the_row_sent:
  assumes "r \<noteq> []" and "list_all is_digit r" and "listeners s = [m]"
  shows "rowNumber (readable (Some (cursor_reply r c)) s) = Some (to_double (of_int (radix_val 10 r))) \<and>
    (radix_val 10 r \<le> 2 ^ 53 \<longrightarrow>
       rowNumber (readable (Some (cursor_reply r c)) s) = Some (Num (of_int (radix_val 10 r))))"
  using toNumber_digits_exact[OF assms(1,2)]
  by (simp add: readable_single[OF assms(3)] rows_reply[OF assms(1,2)] toNumber_digits[OF assms(1,2)])

theorem reply_row_is_the_row_sent_witness:
  "lit ''12'' \<noteq> [] \<and> list_all is_digit (lit ''12'') \<and>
   listeners (progress (lit ''Loading...'') None) = [lit ''Loading...''] \<and>
   radix_val 10 (lit ''12'') \<le> 2 ^ 53 \<and>
   rowNumber (readable (Some (cursor_reply (lit ''12'') (lit ''1''))) (progress (lit ''Loading...'') None))
     = Some (Num 12)"
proof -
  have a: "lit ''12'' \<noteq> []" and b: "list_all is_digit (lit ''12'')"
    by (simp_all add: lit_12 is_digit_def)
  have c: "listeners (progress (lit ''Loading...'') None) = [lit ''Loading...'']"
    by (simp add: progress_eq)
  have v: "radix_val 10 (lit ''12'') = 12"
    by (simp add: lit_12 radix_val_def digit_val_def is_digit_def)
  show ?thesis
    using reply_row_is_the_row_sent[OF a b c, of "lit ''1''"] a b c
    by (auto simp: v)
qed

text \<open>
  Claim C3 says that for every reply that does not match \<open>ESC[row;colR\<close> the captured row
  defaults to 0, a \<open>[\<close> followed by text that is not a number included. The default
  \<open>'0'\<close> is taken only when the pattern \<open>/\[(.*)/\<close> finds no \<open>[\<close> or the text before the
  first \<open>;\<close> is empty; the reply \<open>ESC[abcR\<close> gives \<open>+'abc'\<close>, which is \<open>NaN\<close>.
\<close>

theorem malformed_reply_row_is_NaN:
  "rowNumber (readable (Some ([27, 91] @ lit ''abcR'')) (progress (lit ''Loading...'') None)) = Some NaN \<and>
   NaN \<noteq> Num 0"
proof -
  have "[27, 91] @ lit ''abcR'' = [27, 91, 97, 98, 99, 82]" by (simp add: lit_def)
  then show ?thesis
    by (simp add: readable_single[of _ "lit ''Loading...''"] progress_eq rows_abc)
qed

text \<open>
  Claim C3, amended: for every reply that contains no \<open>[\<close>, and when \<open>read()\<close> returns
  \<open>null\<close>, the row parsed is 0, and so is the row captured by a session with a pending
  cursor query.
\<close>

theorem row_defaults_to_zero_without_bracket:
  assumes "buf = None \<or> (\<exists>b. buf = Some b \<and> 91 \<notin> set b)" and "listeners s \<noteq> []"
  shows "rows (cursor_position buf) = Num 0 \<and> rowNumber (readable buf s) = Some (Num 0)"
proof -
  have r: "rows (cursor_position buf) = Num 0"
    using assms(1) cursor_position_null cursor_position_no_bracket by auto
  have "rows (cursor_position None) = Num 0" by (simp add: cursor_position_null)
  then show ?thesis using r readable_row[OF assms(2), of buf] by auto
qed

theorem row_defaults_to_zero_without_bracket_witness:
  "91 \<notin> set (lit ''hello'') \<and> listeners (progress (lit ''Loading...'') None) \<noteq> [] \<and>
   rows (cursor_position (Some (lit ''hello''))) = Num 0 \<and>
   rowNumber (readable (Some (lit ''hello'')) (progress (lit ''Loading...'') None)) = Some (Num 0)"
proof -
  have a: "91 \<notin> set (lit ''hello'')" by (simp add: lit_def)
  have b: "listeners (progress (lit ''Loading...'') None) \<noteq> []" by (simp add: progress_eq)
  have "Some (lit ''hello'') = None \<or> (\<exists>b. Some (lit ''hello'') = Some b \<and> 91 \<notin> set b)"
    using a by simp
  from row_defaults_to_zero_without_bracket[OF this b] a b show ?thesis by simp
qed

subsection \<open>Collecting the positional arguments\<close>

lemma lit_dash: "lit ''-'' = [45]" "lit ''--'' = [45, 45]"
  by (simp_all add: lit_def)

lemma args_not_proto: "lit ''args'' \<noteq> lit ''__proto__''"
  by (simp add: lit_def)

lemma arg_key_positional: "\<not> starts_with a (lit ''-'') \<Longrightarrow> arg_key a = lit ''args''"
  by (simp add: arg_key_def)

lemma parse_arg_positional:
  assumes "\<not> starts_with a (lit ''-'')" "a \<noteq> []"
  shows "parse_arg res a = res(lit ''args'' \<mapsto>
     AArr ((case res (lit ''args'') of Some (AArr xs) \<Rightarrow> xs | _ \<Rightarrow> []) @ [a]))"
  using assms
  by (simp add: parse_arg_def arg_key_positional Let_def split: option.splits argval.splits)

lemma parse_arg_other_key:
  assumes "\<not> starts_with a (lit ''-'')" "k \<noteq> lit ''args''"
  shows "parse_arg res a k = res k"
  using assms args_not_proto
  by (simp add: parse_arg_def arg_key_positional Let_def assign_def
      split: option.splits argval.splits)

lemma parse_arg_flag:
  assumes "starts_with a (lit ''-'')" "\<not> overwrites_args a"
  shows "parse_arg res a (lit ''args'') = res (lit ''args'')"
  using assms
  by (auto simp: parse_arg_def Let_def assign_def overwrites_args_def split: option.splits)

lemma foldl_parse_arg:
  "list_all (\<lambda>a. \<not> overwrites_args a) xs \<Longrightarrow>
   foldl parse_arg res xs (lit ''args'') =
     (if positional xs = [] then res (lit ''args'')
      else Some (AArr ((case res (lit ''args'') of Some (AArr ys) \<Rightarrow> ys | _ \<Rightarrow> []) @ positional xs)))"
proof (induction xs arbitrary: res)
  case Nil
  then show ?case by (simp add: positional_def)
next
  case (Cons a xs)
  have rest: "list_all (\<lambda>a. \<not> overwrites_args a) xs" and a: "\<not> overwrites_args a"
    using Cons.prems by simp_all
  show ?case
  proof (cases "starts_with a (lit ''-'')")
    case True
    have p: "positional (a # xs) = positional xs" using True by (simp add: positional_def)
    define res' where "res' = parse_arg res a"
    have r: "res' (lit ''args'') = res (lit ''args'')"
      by (simp add: res'_def parse_arg_flag[OF True a])
    have "foldl parse_arg res' xs (lit ''args'') =
       (if positional xs = [] then res' (lit ''args'')
        else Some (AArr ((case res' (lit ''args'') of Some (AArr ys) \<Rightarrow> ys | _ \<Rightarrow> []) @ positional xs)))"
      by (rule Cons.IH[OF rest])
    then show ?thesis by (simp add: p r res'_def[symmetric])
  next
    case False
    have ne: "a \<noteq> []" using a by (auto simp: overwrites_args_def)
    have p: "positional (a # xs) = a # positional xs" using False by (simp add: positional_def)
    define ys where "ys = (case res (lit ''args'') of Some (AArr ys) \<Rightarrow> ys | _ \<Rightarrow> [])"
    define res' where "res' = parse_arg res a"
    have r: "res' (lit ''args'') = Some (AArr (ys @ [a]))"
      by (simp add: res'_def ys_def parse_arg_positional[OF False ne])
    have "foldl parse_arg res' xs (lit ''args'') =
       (if positional xs = [] then res' (lit ''args'')
        else Some (AArr ((case res' (lit ''args'') of Some (AArr ys) \<Rightarrow> ys | _ \<Rightarrow> []) @ positional xs)))"
      by (rule Cons.IH[OF rest])
    then have "foldl parse_arg res' xs (lit ''args'') = Some (AArr (ys @ a # positional xs))"
      by (simp add: r)
    then show ?thesis by (simp add: p res'_def ys_def)
  qed
qed

lemma single_dash_no_splits:
  assumes "a ! 0 = 45" "a ! 1 \<noteq> 45" "3 \<le> length a"
  shows "starts_with a (lit ''-'')" "\<not> starts_with a (lit ''--'')"
proof -
  obtain x y zs where a: "a = x # y # zs" using assms(3) by (cases a; cases "tl a") auto
  show "starts_with a (lit ''-'')" "\<not> starts_with a (lit ''--'')"
    using assms(1,2) by (simp_all add: a starts_with_def lit_dash)
qed

lemma parse_arg_single_dash:
  assumes "a ! 0 = 45" "a ! 1 \<noteq> 45" "3 \<le> length a"
  shows "parse_arg res a = res"
proof -
  note d = single_dash_no_splits[OF assms]
  have e: "eq_splits a = []" using d(2) by (simp add: eq_splits_def)
  have f: "\<not> test_flag a" using d(2) assms(3) by (simp add: test_flag_def)
  have v: "arg_value a = None"
    using d(1) by (simp add: arg_value_def e f test_false_def test_number_def test_string_def Let_def)
  show ?thesis using d(1) by (simp add: parse_arg_def v Let_def)
qed

lemma parse_arg_single_dash_cons: "c \<noteq> 45 \<Longrightarrow> parse_arg res (45 # c # d # rest) = res"
  by (rule parse_arg_single_dash) simp_all

lemmas parse_ops = parseArgs_def parse_arg_def arg_key_def arg_value_def starts_with_def
  eq_splits_def test_false_def test_flag_def test_number_def test_string_def strip_assign_def
  strip_dashes_def assign_def Let_def is_dot_def is_line_terminator_def is_word_def is_digit_def
  toUpperCase_def

text \<open>
  Claim C10 says that \<open>parseArgs\<close> collects exactly the arguments that do not begin with
  \<open>-\<close> into the array \<open>results.args\<close>, in order, and that an argument \<open>-xy\<close> leaves no
  entry. An empty-string argument is not pushed: it replaces the array by the empty string.
  A flag whose key is \<open>args\<close> replaces the array too.
\<close>

theorem empty_argument_and_args_flag_replace_the_array:
  "parseArgs [lit ''node'', lit ''cli.js'', lit ''a'', []] (lit ''args'') = Some (AStr []) \<and>
   parseArgs [lit ''node'', lit ''cli.js'', lit ''a'', lit ''--args''] (lit ''args'') = Some (ABool True)"
  by (simp add: parse_ops lit_def)

text \<open>
  Claim C10, amended: for every argument list with no empty-string argument and no flag
  that assigns the key \<open>args\<close>, \<open>results.args\<close> is the array of exactly the arguments
  that do not begin with \<open>-\<close>, in their command-line order, and is absent when there is
  none. An argument that does not begin with \<open>-\<close> never changes another key. An argument
  made of one \<open>-\<close> followed by two or more characters, the first of them not a \<open>-\<close>,
  changes nothing.
\<close>

theorem parseArgs_collects_positional_arguments:
  assumes "list_all (\<lambda>a. \<not> overwrites_args a) (drop 2 argv)"
  shows "parseArgs argv (lit ''args'') =
       (if positional (drop 2 argv) = [] then None else Some (AArr (positional (drop 2 argv)))) \<and>
     (\<forall>res a k. \<not> starts_with a (lit ''-'') \<and> k \<noteq> lit ''args'' \<longrightarrow> parse_arg res a k = res k) \<and>
     (\<forall>res c d rest. c \<noteq> 45 \<longrightarrow> parse_arg res (45 # c # d # rest) = res)"
  using foldl_parse_arg[OF assms, of Map.empty] parse_arg_other_key parse_arg_single_dash_cons
  by (simp add: parseArgs_def)

theorem parseArgs_collects_positional_arguments_witness:
  "list_all (\<lambda>a. \<not> overwrites_args a)
      (drop 2 [lit ''node'', lit ''cli.js'', lit ''-h'', lit ''a'', lit ''--name=John'', lit ''b'', lit ''-xy'']) \<and>
   parseArgs [lit ''node'', lit ''cli.js'', lit ''-h'', lit ''a'', lit ''--name=John'', lit ''b'', lit ''-xy'']
      (lit ''args'') = Some (AArr [lit ''a'', lit ''b'']) \<and>
   parse_arg Map.empty (lit ''-xy'') = Map.empty"
proof -
  have k: "arg_key (lit ''-h'') \<noteq> lit ''args''" "arg_key (lit ''--name=John'') \<noteq> lit ''args''"
    "arg_key (lit ''-xy'') \<noteq> lit ''args''"
    by (simp_all add: arg_key_def starts_with_def strip_dashes_def lit_def is_dot_def
        is_line_terminator_def is_word_def is_digit_def toUpperCase_def)
  have h: "list_all (\<lambda>a. \<not> overwrites_args a)
      (drop 2 [lit ''node'', lit ''cli.js'', lit ''-h'', lit ''a'', lit ''--name=John'', lit ''b'', lit ''-xy''])"
    using k by (simp add: overwrites_args_def) (simp add: lit_def starts_with_def)
  have p: "positional (drop 2 [lit ''node'', lit ''cli.js'', lit ''-h'', lit ''a'', lit ''--name=John'', lit ''b'', lit ''-xy''])
      = [lit ''a'', lit ''b'']"
    by (simp add: positional_def starts_with_def lit_def)
  have x: "lit ''-xy'' = 45 # 120 # 121 # []" by (simp add: lit_def)
  note t = parseArgs_collects_positional_arguments[OF h]
  from t have a: "parseArgs [lit ''node'', lit ''cli.js'', lit ''-h'', lit ''a'', lit ''--name=John'', lit ''b'', lit ''-xy'']
      (lit ''args'') = Some (AArr [lit ''a'', lit ''b''])"
    by (simp only: p) simp
  from t have "parse_arg Map.empty (45 # 120 # 121 # []) = Map.empty" by simp
  then have b: "parse_arg Map.empty (lit ''-xy'') = Map.empty" by (simp only: x)
  show ?thesis using h a b by simp
qed

end
